theory Spec2Isabelle
  imports Main
begin

section \<open>Strings\<close>

text \<open>
  A JavaScript string is a sequence of UTF-16 code units. The model represents a string
  whose code units all lie below 256 by the list of these code units, one \<^typ>\<open>char\<close>
  each, so that \<open>s.length\<close> is \<^term>\<open>length s\<close> and \<open>s[i]\<close> is \<^term>\<open>s ! i\<close>.
  All statements below range over such strings. Apart from the lower-case mapping
  nothing in the model depends on the bound.
\<close>

subsection \<open>Character classes of the regular expressions\<close>

definition charCode :: "char \<Rightarrow> nat" where
  \<comment> \<open>the code unit as a number\<close>
  "charCode c = of_char c"

definition between :: "char \<Rightarrow> char \<Rightarrow> char \<Rightarrow> bool" where
  \<comment> \<open>a range \<open>[lo-hi]\<close> of a character class\<close>
  "between lo hi c = (charCode lo \<le> charCode c \<and> charCode c \<le> charCode hi)"

definition isDigit :: "char \<Rightarrow> bool" where
  \<comment> \<open>\<open>\d\<close>, \<open>[0-9]\<close>\<close>
  "isDigit c = between CHR ''0'' CHR ''9'' c"

definition isUpper :: "char \<Rightarrow> bool" where
  \<comment> \<open>\<open>[A-Z]\<close>\<close>
  "isUpper c = between CHR ''A'' CHR ''Z'' c"

definition isLower :: "char \<Rightarrow> bool" where
  \<comment> \<open>\<open>[a-z]\<close>\<close>
  "isLower c = between CHR ''a'' CHR ''z'' c"

definition isAlpha :: "char \<Rightarrow> bool" where
  \<comment> \<open>\<open>[a-zA-Z]\<close>\<close>
  "isAlpha c = (isLower c \<or> isUpper c)"

definition isHex :: "char \<Rightarrow> bool" where
  \<comment> \<open>\<open>[0-9A-Fa-f]\<close>\<close>
  "isHex c = (isDigit c \<or> between CHR ''A'' CHR ''F'' c \<or> between CHR ''a'' CHR ''f'' c)"

definition isWord :: "char \<Rightarrow> bool" where
  \<comment> \<open>\<open>\w\<close>, \<open>[A-Za-z0-9_]\<close>\<close>
  "isWord c = (isAlpha c \<or> isDigit c \<or> c = CHR ''_'')"

definition notSpaceQuote :: "char \<Rightarrow> bool" where
  \<comment> \<open>\<open>[^ "]\<close>: any code unit but the space and the double quote\<close>
  "notSpaceQuote c = (c \<noteq> CHR '' '' \<and> c \<noteq> CHR 0x22)"

section \<open>Edit distance\<close>

text \<open>
  \<open>levenshtein(a, b)\<close> fills a table \<open>dp\<close> of \<open>m + 1\<close> rows, each created by
  \<open>new Array(n + 1)\<close> with all slots empty. A slot is modelled as a \<^typ>\<open>nat option\<close>:
  \<open>None\<close> is an empty slot, which reads as \<open>undefined\<close> and turns the arithmetic
  done with it into \<open>NaN\<close>. The model keeps that propagation, so that a result
  \<open>Some d\<close> says that the function returned the proper number \<open>d\<close>.
\<close>

type_synonym cell = "nat option"
type_synonym table = "cell list list"

definition newTable :: "nat \<Rightarrow> nat \<Rightarrow> table" where
  \<comment> \<open>\<open>Array.from({ length: m + 1 }, () => new Array(n + 1))\<close>\<close>
  "newTable m n = replicate (m + 1) (replicate (n + 1) None)"

definition getCell :: "table \<Rightarrow> nat \<Rightarrow> nat \<Rightarrow> cell" where
  \<comment> \<open>\<open>dp[i][j]\<close> read; a slot outside the row reads as \<open>undefined\<close> too\<close>
  "getCell dp i j = (if i < length dp \<and> j < length (dp ! i) then dp ! i ! j else None)"

definition setCell :: "table \<Rightarrow> nat \<Rightarrow> nat \<Rightarrow> cell \<Rightarrow> table" where
  \<comment> \<open>\<open>dp[i][j] = v\<close>; every index the loops write lies inside the table\<close>
  "setCell dp i j v = dp[i := (dp ! i)[j := v]]"

definition plusCell :: "cell \<Rightarrow> nat \<Rightarrow> cell" where
  \<comment> \<open>\<open>x + k\<close>, \<open>NaN\<close> when \<open>x\<close> is \<open>undefined\<close>\<close>
  "plusCell x k = map_option (\<lambda>v. v + k) x"

definition min3 :: "cell \<Rightarrow> cell \<Rightarrow> cell \<Rightarrow> cell" where
  \<comment> \<open>\<open>Math.min(x, y, z)\<close>, \<open>NaN\<close> as soon as one argument is\<close>
  "min3 x y z =
     (case (x, y, z) of (Some u, Some v, Some w) \<Rightarrow> Some (min u (min v w)) | _ \<Rightarrow> None)"

function initColumn :: "nat \<Rightarrow> nat \<Rightarrow> table \<Rightarrow> table" where
  \<comment> \<open>\<open>for (let i = 0; i <= m; i++) dp[i][0] = i;\<close> from \<open>i\<close> on\<close>
  "initColumn i m dp = (if i \<le> m then initColumn (i + 1) m (setCell dp i 0 (Some i)) else dp)"
  by pat_completeness auto
termination
  by (relation "measure (\<lambda>(i, m, dp). m + 1 - i)") auto

function initRow :: "nat \<Rightarrow> nat \<Rightarrow> table \<Rightarrow> table" where
  \<comment> \<open>\<open>for (let j = 0; j <= n; j++) dp[0][j] = j;\<close> from \<open>j\<close> on\<close>
  "initRow j n dp = (if j \<le> n then initRow (j + 1) n (setCell dp 0 j (Some j)) else dp)"
  by pat_completeness auto
termination
  by (relation "measure (\<lambda>(j, n, dp). n + 1 - j)") auto

definition fillCell :: "string \<Rightarrow> string \<Rightarrow> nat \<Rightarrow> nat \<Rightarrow> table \<Rightarrow> table" where
  \<comment> \<open>the body of the inner loop\<close>
  "fillCell a b i j dp =
     (let cost = (if a ! (i - 1) = b ! (j - 1) then 0 else 1)
      in setCell dp i j
           (min3 (plusCell (getCell dp (i - 1) j) 1)
                 (plusCell (getCell dp i (j - 1)) 1)
                 (plusCell (getCell dp (i - 1) (j - 1)) cost)))"

function fillRow :: "string \<Rightarrow> string \<Rightarrow> nat \<Rightarrow> nat \<Rightarrow> table \<Rightarrow> table" where
  \<comment> \<open>\<open>for (let j = 1; j <= n; j++) { ... }\<close> from \<open>j\<close> on, in row \<open>i\<close>\<close>
  "fillRow a b i j dp =
     (if j \<le> length b then fillRow a b i (j + 1) (fillCell a b i j dp) else dp)"
  by pat_completeness auto
termination
  by (relation "measure (\<lambda>(a, b, i, j, dp). length b + 1 - j)") auto

function fillTable :: "string \<Rightarrow> string \<Rightarrow> nat \<Rightarrow> table \<Rightarrow> table" where
  \<comment> \<open>\<open>for (let i = 1; i <= m; i++) { ... }\<close> from \<open>i\<close> on\<close>
  "fillTable a b i dp =
     (if i \<le> length a then fillTable a b (i + 1) (fillRow a b i 1 dp) else dp)"
  by pat_completeness auto
termination
  by (relation "measure (\<lambda>(a, b, i, dp). length a + 1 - i)") auto

definition levenshtein :: "string \<Rightarrow> string \<Rightarrow> nat option" where
  "levenshtein a b =
     (if a = [] then Some (length b)
      else if b = [] then Some (length a)
      else let m = length a; n = length b;
               dp = newTable m n;
               dp = initColumn 0 m dp;
               dp = initRow 0 n dp;
               dp = fillTable a b 1 dp
           in getCell dp m n)"

section \<open>String operations of the platform\<close>

definition toLowerChar :: "char \<Rightarrow> char" where
  \<comment> \<open>the lower-case mapping of the code units below 256: \<open>A-Z\<close> and the
      Latin-1 capitals \<open>U+00C0-U+00D6\<close>, \<open>U+00D8-U+00DE\<close> move up by 32\<close>
  "toLowerChar c =
     (if isUpper c \<or> between (CHR 0xC0) (CHR 0xD6) c \<or> between (CHR 0xD8) (CHR 0xDE) c
      then char_of (charCode c + 32) else c)"

definition toLowerCase :: "string \<Rightarrow> string" where
  \<comment> \<open>\<open>s.toLowerCase()\<close>\<close>
  "toLowerCase s = map toLowerChar s"

fun startsWith :: "string \<Rightarrow> string \<Rightarrow> bool" where
  \<comment> \<open>\<open>s.startsWith(p)\<close>\<close>
  "startsWith s [] = True"
| "startsWith [] (p # ps) = False"
| "startsWith (c # cs) (p # ps) = (c = p \<and> startsWith cs ps)"

definition endsWith :: "string \<Rightarrow> string \<Rightarrow> bool" where
  \<comment> \<open>\<open>s.endsWith(p)\<close>\<close>
  "endsWith s p = startsWith (rev s) (rev p)"

fun indexOf :: "string \<Rightarrow> string \<Rightarrow> nat option" where
  \<comment> \<open>\<open>s.indexOf(p)\<close>, \<open>None\<close> for \<open>-1\<close>\<close>
  "indexOf [] p = (if p = [] then Some 0 else None)"
| "indexOf (c # cs) p =
     (if startsWith (c # cs) p then Some 0 else map_option Suc (indexOf cs p))"

definition includesStr :: "string \<Rightarrow> string \<Rightarrow> bool" where
  \<comment> \<open>\<open>s.includes(p)\<close>\<close>
  "includesStr s p = (indexOf s p \<noteq> None)"

function splitStr :: "string \<Rightarrow> string \<Rightarrow> string list" where
  \<comment> \<open>\<open>s.split(sep)\<close> with a string separator: the pieces between the successive
      occurrences of \<open>sep\<close>, each searched from the end of the one before\<close>
  "splitStr s sep =
     (if sep = [] then map (\<lambda>c. [c]) s
      else case indexOf s sep of
             None \<Rightarrow> [s]
           | Some j \<Rightarrow> take j s # splitStr (drop (j + length sep) s) sep)"
  by pat_completeness auto
termination
proof (relation "measure (\<lambda>(s, sep). length s)")
  show "wf (measure (\<lambda>(s, sep). length s))" by simp
next
  fix s sep :: string and j
  assume "sep \<noteq> []" and "indexOf s sep = Some j"
  then have "s \<noteq> []" by (cases s) (auto split: if_splits)
  with \<open>sep \<noteq> []\<close>
  show "((drop (j + length sep) s, sep), (s, sep)) \<in> measure (\<lambda>(s, sep). length s)"
    by simp
qed

definition countMatches :: "(char \<Rightarrow> bool) \<Rightarrow> string \<Rightarrow> nat" where
  \<comment> \<open>\<open>(s.match(/[class]/g) || []).length\<close>\<close>
  "countMatches P s = length (filter P s)"

section \<open>The data model\<close>

datatype verdict = Safe | Suspicious | Fraudulent

record analysisResult =
  score :: nat
  verdict :: verdict
  reasons :: "string list"

text \<open>
  The three module constants of the source are gathered in a configuration, which the
  engine takes as an argument.
\<close>

record config =
  popularDomains :: "string list"
  suspiciousTLDs :: "string list"
  fraudKeywords :: "string list"

definition POPULAR_DOMAINS :: "string list" where
  "POPULAR_DOMAINS =
     [''google.com'', ''facebook.com'', ''youtube.com'', ''amazon.com'',
      ''twitter.com'', ''linkedin.com'', ''apple.com'', ''github.com'',
      ''microsoft.com'', ''paypal.com'', ''wikipedia.org'', ''instagram.com'']"

definition SUSPICIOUS_TLDS :: "string list" where
  "SUSPICIOUS_TLDS = [''.tk'', ''.ml'', ''.ga'', ''.cf'', ''.gq'', ''.xyz'', ''.top'', ''.biz'']"

definition FRAUD_KEYWORDS :: "string list" where
  "FRAUD_KEYWORDS =
     [''login'', ''verify'', ''update'', ''secure'', ''bank'', ''account'',
      ''paypal'', ''confirm'', ''password'', ''signin'', ''click'', ''free'',
      ''winner'', ''claim'', ''urgent'']"

definition defaultConfig :: config where
  "defaultConfig =
     \<lparr>popularDomains = POPULAR_DOMAINS, suspiciousTLDs = SUSPICIOUS_TLDS,
      fraudKeywords = FRAUD_KEYWORDS\<rparr>"

section \<open>Hostname extraction\<close>

text \<open>
  \<open>new URL(tmp).hostname\<close> is a service of the platform and not code of the program.
  The engine takes it as an argument of type \<open>urlParser\<close>: \<open>parse tmp = Some h\<close> when
  the constructor accepts \<open>tmp\<close> and the \<open>hostname\<close> of the URL is \<open>h\<close>, and
  \<open>parse tmp = None\<close> when the constructor throws.
\<close>

type_synonym urlParser = "string \<Rightarrow> string option"

definition hasScheme :: "string \<Rightarrow> bool" where
  \<comment> \<open>\<open>/^[a-zA-Z]+:\/\//.test(s)\<close>\<close>
  "hasScheme s = (takeWhile isAlpha s \<noteq> [] \<and> startsWith (dropWhile isAlpha s) ''://'')"

definition getHostname :: "urlParser \<Rightarrow> string \<Rightarrow> string option" where
  \<comment> \<open>\<open>None\<close> is the \<open>null\<close> of the \<open>catch\<close> branch\<close>
  "getHostname parse url =
     (let tmp = (if \<not> hasScheme url then ''http://'' @ url else url)
      in case parse tmp of
           None \<Rightarrow> None
         | Some h \<Rightarrow> Some (toLowerCase h))"

section \<open>The rules\<close>

text \<open>
  The running \<open>score\<close> and \<open>reasons\<close> of \<open>analyzeURL\<close> are threaded through the
  rules as a pair.
\<close>

type_synonym tally = "nat \<times> string list"

definition report :: "string \<Rightarrow> nat \<Rightarrow> tally \<Rightarrow> tally" where
  \<comment> \<open>\<open>reasons.push(r); score += w;\<close>\<close>
  "report r w t = (fst t + w, snd t @ [r])"

definition check :: "bool \<Rightarrow> string \<Rightarrow> nat \<Rightarrow> tally \<Rightarrow> tally" where
  \<comment> \<open>\<open>if (c) { reasons.push(r); score += w; }\<close>\<close>
  "check c r w t = (if c then report r w t else t)"

definition dq :: string where
  \<comment> \<open>the double quote of the reason templates\<close>
  "dq = [CHR 0x22]"

definition matchesSchemeUrl :: "string \<Rightarrow> bool" where
  \<comment> \<open>\<open>/^(ftp|http|https):\/\/[^ "]+$/.test(url)\<close>\<close>
  "matchesSchemeUrl url =
     list_ex (\<lambda>p. startsWith url p \<and> drop (length p) url \<noteq> []
                   \<and> list_all notSpaceQuote (drop (length p) url))
       [''ftp://'', ''http://'', ''https://'']"

definition matchesBareDomain :: "string \<Rightarrow> bool" where
  \<comment> \<open>\<open>/^[^ "]+\.[^ "]+$/.test(url)\<close>: no space or quote anywhere, and a dot that is
      neither the first nor the last code unit\<close>
  "matchesBareDomain url =
     (list_all notSpaceQuote url \<and> list_ex (\<lambda>c. c = CHR ''.'') (butlast (tl url)))"

definition formatCheck :: "string \<Rightarrow> tally \<Rightarrow> tally" where
  "formatCheck url t =
     check (\<not> matchesSchemeUrl url \<and> \<not> matchesBareDomain url)
       ''Malformed or missing protocol.'' 1 t"

definition isRawIP :: "string \<Rightarrow> bool" where
  \<comment> \<open>\<open>/^\d{1,3}(\.\d{1,3}){3}$/.test(hostname)\<close>: four groups of one to three digits
      between three dots\<close>
  "isRawIP h =
     (length (splitStr h ''.'') = 4
      \<and> list_all (\<lambda>g. 1 \<le> length g \<and> length g \<le> 3 \<and> list_all isDigit g) (splitStr h ''.''))"

fun hasPercentEncoding :: "string \<Rightarrow> bool" where
  \<comment> \<open>\<open>/%[0-9A-Fa-f]{2}/.test(url)\<close>\<close>
  "hasPercentEncoding (c # d # e # s) =
     ((c = CHR ''%'' \<and> isHex d \<and> isHex e) \<or> hasPercentEncoding (d # e # s))"
| "hasPercentEncoding s = False"

definition tldReason :: "string \<Rightarrow> string" where
  "tldReason tld = ''Suspicious TLD: '' @ tld"

fun tldRule :: "string list \<Rightarrow> string \<Rightarrow> tally \<Rightarrow> tally" where
  \<comment> \<open>the loop over \<open>SUSPICIOUS_TLDS\<close>, left at the first match\<close>
  "tldRule [] hostname t = t"
| "tldRule (tld # tlds) hostname t =
     (if endsWith hostname tld then report (tldReason tld) 3 t
      else tldRule tlds hostname t)"

definition keywordReason :: "string \<Rightarrow> string" where
  "keywordReason kw = ''Contains keyword '' @ dq @ kw @ dq @ ''.''"

fun keywordRule :: "string list \<Rightarrow> string \<Rightarrow> tally \<Rightarrow> tally" where
  \<comment> \<open>the loop over \<open>FRAUD_KEYWORDS\<close>\<close>
  "keywordRule [] url t = t"
| "keywordRule (kw # kws) url t =
     keywordRule kws url (check (includesStr (toLowerCase url) kw) (keywordReason kw) 2 t)"

definition normalize :: "string \<Rightarrow> string" where
  \<comment> \<open>\<open>hostname.replace(/0/g,"o").replace(/1/g,"l").replace(/3/g,"e").replace(/[^\w.]/g,"")\<close>\<close>
  "normalize hostname =
     filter (\<lambda>c. isWord c \<or> c = CHR ''.'')
       (map (\<lambda>c. if c = CHR ''3'' then CHR ''e'' else c)
         (map (\<lambda>c. if c = CHR ''1'' then CHR ''l'' else c)
           (map (\<lambda>c. if c = CHR ''0'' then CHR ''o'' else c) hostname)))"

definition similar :: "string \<Rightarrow> string \<Rightarrow> bool" where
  \<comment> \<open>\<open>dist / Math.max(normalized.length, pd.length) <= 0.25 && normalized !== pd\<close>.
      The quotient of two string lengths is at most \<open>0.25\<close> in double precision exactly
      when four times the distance is at most the larger length; \<open>0 / 0\<close> and a distance
      that is no number compare false.\<close>
  "similar normalized pd =
     (case levenshtein normalized pd of
        None \<Rightarrow> False
      | Some dist \<Rightarrow> max (length normalized) (length pd) \<noteq> 0
            \<and> 4 * dist \<le> max (length normalized) (length pd) \<and> normalized \<noteq> pd)"

definition typosquatReason :: "string \<Rightarrow> string" where
  "typosquatReason pd =
     ''Looks similar to popular site '' @ dq @ pd @ dq @ '' (possible typosquat).''"

fun typosquatRule :: "string list \<Rightarrow> string \<Rightarrow> tally \<Rightarrow> tally" where
  \<comment> \<open>the loop over \<open>POPULAR_DOMAINS\<close>, left at the first match\<close>
  "typosquatRule [] normalized t = t"
| "typosquatRule (pd # pds) normalized t =
     (if similar normalized pd then report (typosquatReason pd) 4 t
      else typosquatRule pds normalized t)"

definition pathOf :: "string \<Rightarrow> string \<Rightarrow> string" where
  \<comment> \<open>\<open>url.split(hostname)[1] || ""\<close>\<close>
  "pathOf url hostname =
     (case splitStr url hostname of
        _ # p # _ \<Rightarrow> p
      | _ \<Rightarrow> [])"

definition pathRules :: "string \<Rightarrow> tally \<Rightarrow> tally" where
  "pathRules path t =
     (let t = check (length path > 80) ''Long path or query.'' 1 t;
          t = check (countMatches (\<lambda>c. c = CHR ''?'' \<or> c = CHR ''&'') path \<ge> 5)
                ''Many query parameters.'' 1 t
      in t)"

definition verdictOf :: "nat \<Rightarrow> verdict" where
  \<comment> \<open>\<open>let verdict = "Safe"; if (score >= 8) ...; else if (score >= 4) ...;\<close>\<close>
  "verdictOf s = (if s \<ge> 8 then Fraudulent else if s \<ge> 4 then Suspicious else Safe)"

definition hostRules :: "config \<Rightarrow> string \<Rightarrow> string \<Rightarrow> tally \<Rightarrow> tally" where
  \<comment> \<open>the rules that run once the hostname is known, in the order of the source\<close>
  "hostRules cfg url hostname t =
     (let t = check (isRawIP hostname) ''Uses raw IP address.'' 5 t;
          t = check (length url > 100) ''Very long URL.'' 2 t;
          t = check (length hostname > 50) ''Very long hostname.'' 2 t;
          t = check (length (splitStr hostname ''.'') \<ge> 4) ''Multiple subdomains.'' 2 t;
          t = tldRule (suspiciousTLDs cfg) hostname t;
          t = check (hasPercentEncoding url) ''Contains percent-encoding.'' 1 t;
          t = check (CHR ''@'' \<in> set url) ''Contains '@' symbol.'' 4 t;
          t = check (countMatches (\<lambda>c. c = CHR ''-'') hostname \<ge> 2)
                ''Many hyphens in domain.'' 1 t;
          t = check (countMatches isDigit hostname \<ge> 3) ''Many digits in domain.'' 1 t;
          t = keywordRule (fraudKeywords cfg) url t;
          t = typosquatRule (popularDomains cfg) (normalize hostname) t;
          t = pathRules (pathOf url hostname) t
      in t)"

definition cannotParse :: "tally \<Rightarrow> analysisResult" where
  \<comment> \<open>the body of \<open>if (!hostname)\<close>\<close>
  "cannotParse t =
     (let t = report ''Cannot parse hostname.'' 3 t
      in \<lparr>score = fst t, verdict = Fraudulent, reasons = snd t\<rparr>)"

definition analyzeURL :: "urlParser \<Rightarrow> config \<Rightarrow> string \<Rightarrow> analysisResult" where
  \<comment> \<open>\<open>!hostname\<close> holds for \<open>null\<close> and for the empty string\<close>
  "analyzeURL parse cfg url =
     (let t = formatCheck url (0, [])
      in case getHostname parse url of
           None \<Rightarrow> cannotParse t
         | Some hostname \<Rightarrow>
             if hostname = [] then cannotParse t
             else let t = hostRules cfg url hostname t
                  in \<lparr>score = fst t, verdict = verdictOf (fst t), reasons = snd t\<rparr>)"

section \<open>A reference model of the platform's URL parser\<close>

text \<open>
  The statements about the engine hold for every parser. Where one needs the hostname of
  a particular URL, it names that hostname in a hypothesis. The model below gives
  concrete inputs a parser to run on: it follows the URL Standard for a URL with one of
  the special schemes \<open>http\<close>, \<open>https\<close>, \<open>ftp\<close>, \<open>ws\<close> and \<open>wss\<close> whose host
  is written in ASCII without percent-encoding, bracket or \<open>xn--\<close> label. On every other
  input (an IPv6 address, a percent-encoded or internationalised host, another scheme)
  the model answers \<open>Unmodelled\<close>, and the parser built from it is left unspecified
  there: no statement depends on what it gives on such an input.
\<close>

datatype parsed = Hostname string | Throws | Unmodelled

definition isC0OrSpace :: "char \<Rightarrow> bool" where
  \<comment> \<open>a C0 control or space\<close>
  "isC0OrSpace c = (charCode c \<le> 0x20)"

definition isTabOrNewline :: "char \<Rightarrow> bool" where
  "isTabOrNewline c = (c = CHR 0x09 \<or> c = CHR 0x0A \<or> c = CHR 0x0D)"

definition stripInput :: "string \<Rightarrow> string" where
  \<comment> \<open>leading and trailing C0 controls and spaces are dropped, then every tab and newline\<close>
  "stripInput s =
     filter (\<lambda>c. \<not> isTabOrNewline c)
       (rev (dropWhile isC0OrSpace (rev (dropWhile isC0OrSpace s))))"

definition isSchemeChar :: "char \<Rightarrow> bool" where
  \<comment> \<open>the code units a scheme is made of\<close>
  "isSchemeChar c = (isAlpha c \<or> isDigit c \<or> c = CHR ''+'' \<or> c = CHR ''-'' \<or> c = CHR ''.'')"

definition asciiLower :: "string \<Rightarrow> string" where
  "asciiLower s = map (\<lambda>c. if isUpper c then char_of (charCode c + 32) else c) s"

definition isAuthorityEnd :: "char \<Rightarrow> bool" where
  \<comment> \<open>where the authority of a special URL ends\<close>
  "isAuthorityEnd c = (c = CHR ''/'' \<or> c = CHR ''?'' \<or> c = CHR ''#'' \<or> c = CHR 0x5C)"

definition isForbiddenDomainChar :: "char \<Rightarrow> bool" where
  \<comment> \<open>the forbidden domain code points\<close>
  "isForbiddenDomainChar c =
     (charCode c \<le> 0x20 \<or> c = CHR 0x7F \<or> c = CHR 0x5C
      \<or> c \<in> set ''#/:<>?@[]^|%'')"

definition digitValue :: "char \<Rightarrow> int" where
  \<comment> \<open>the value of a hexadecimal digit, 16 for any other code unit\<close>
  "digitValue c =
     (if isDigit c then int (charCode c) - 48
      else if between CHR ''a'' CHR ''f'' c then int (charCode c) - 87
      else if between CHR ''A'' CHR ''F'' c then int (charCode c) - 55
      else 16)"

definition parseRadix :: "int \<Rightarrow> string \<Rightarrow> int option" where
  \<comment> \<open>the digits of \<open>s\<close> read in radix \<open>r\<close>; the empty string reads as 0\<close>
  "parseRadix r s =
     (if list_all (\<lambda>c. digitValue c < r) s
      then Some (foldl (\<lambda>n c. n * r + digitValue c) 0 s) else None)"

definition parseIPv4Number :: "string \<Rightarrow> int option" where
  \<comment> \<open>a part of an IPv4 address: hexadecimal after \<open>0x\<close>, octal after a leading
      \<open>0\<close>, decimal otherwise\<close>
  "parseIPv4Number s =
     (if s = [] then None
      else if length s \<ge> 2 \<and> (take 2 s = ''0x'' \<or> take 2 s = ''0X'') then parseRadix 16 (drop 2 s)
      else if length s \<ge> 2 \<and> hd s = CHR ''0'' then parseRadix 8 (tl s)
      else parseRadix 10 s)"

definition dropEmptyLast :: "string list \<Rightarrow> string list" where
  "dropEmptyLast parts = (if parts \<noteq> [] \<and> last parts = [] then butlast parts else parts)"

definition endsInNumber :: "string \<Rightarrow> bool" where
  \<comment> \<open>whether the last non-empty label is a number, which makes the host an IPv4 address\<close>
  "endsInNumber h =
     (let parts = dropEmptyLast (splitStr h ''.'')
      in parts \<noteq> []
         \<and> ((last parts \<noteq> [] \<and> list_all isDigit (last parts)) \<or> parseIPv4Number (last parts) \<noteq> None))"

definition showByte :: "int \<Rightarrow> string" where
  \<comment> \<open>a number below 256 in decimal\<close>
  "showByte n =
     (if n \<ge> 100 then [char_of (48 + n div 100)] else [])
     @ (if n \<ge> 10 then [char_of (48 + n div 10 mod 10)] else [])
     @ [char_of (48 + n mod 10)]"

definition parseIPv4 :: "string \<Rightarrow> string option" where
  \<comment> \<open>the IPv4 parser, followed by the serialisation of the address\<close>
  "parseIPv4 h =
     (let parts = splitStr h ''.'';
          parts = (if length parts > 1 then dropEmptyLast parts else parts);
          numbers = map parseIPv4Number parts
      in if length parts > 4 \<or> list_ex (\<lambda>n. n = None) numbers then None
         else let ns = map the numbers
              in if list_ex (\<lambda>n. n > 255) (butlast ns) \<or> last ns \<ge> 256 ^ (5 - length ns) then None
                 else let v = last ns + sum_list (map (\<lambda>(k, n). n * 256 ^ (3 - k)) (enumerate 0 (butlast ns)))
                      in Some (showByte (v div 256 ^ 3) @ ''.'' @ showByte (v div 256 ^ 2 mod 256) @ ''.''
                               @ showByte (v div 256 mod 256) @ ''.'' @ showByte (v mod 256)))"

definition parseDomain :: "string \<Rightarrow> parsed" where
  \<comment> \<open>the host parser on the host of a special URL\<close>
  "parseDomain h =
     (if startsWith h ''['' \<or> CHR ''%'' \<in> set h \<or> list_ex (\<lambda>c. charCode c \<ge> 0x80) h
         \<or> list_ex (\<lambda>l. startsWith (asciiLower l) ''xn--'') (splitStr h ''.'')
      then Unmodelled
      else if list_ex isForbiddenDomainChar h then Throws
      else if endsInNumber (asciiLower h)
           then (case parseIPv4 (asciiLower h) of None \<Rightarrow> Throws | Some a \<Rightarrow> Hostname a)
      else Hostname (asciiLower h))"

fun splitPort :: "bool \<Rightarrow> string \<Rightarrow> string \<Rightarrow> string \<times> string option" where
  "splitPort inside buf [] = (buf, None)"
| "splitPort inside buf (c # cs) =
     (if c = CHR '':'' \<and> \<not> inside then (buf, Some cs)
      else splitPort (if c = CHR ''['' then True else if c = CHR '']'' then False else inside)
             (buf @ [c]) cs)"

definition afterLastAt :: "string \<Rightarrow> string" where
  \<comment> \<open>the authority without its credentials\<close>
  "afterLastAt s = rev (takeWhile (\<lambda>c. c \<noteq> CHR ''@'') (rev s))"

definition parseAuthority :: "string \<Rightarrow> parsed" where
  \<comment> \<open>host and port of an authority; the port is a decimal number up to 65535\<close>
  "parseAuthority auth =
     (let hostport = afterLastAt auth
      in if hostport = [] then Throws
         else case splitPort False [] hostport of
                (h, None) \<Rightarrow> parseDomain h
              | (h, Some port) \<Rightarrow>
                  if h = [] then Throws
                  else (case parseDomain h of
                          Hostname a \<Rightarrow>
                            if list_all isDigit port \<and> (port = [] \<or> the (parseRadix 10 port) \<le> 65535)
                            then Hostname a else Throws
                        | r \<Rightarrow> r))"

definition whatwgHostname :: "string \<Rightarrow> parsed" where
  \<comment> \<open>the scheme, then the authority after any number of slashes and backslashes\<close>
  "whatwgHostname input =
     (let s = stripInput input;
          scheme = asciiLower (takeWhile isSchemeChar s);
          rest = dropWhile isSchemeChar s
      in if s = [] \<or> \<not> isAlpha (hd s) \<or> rest = [] \<or> hd rest \<noteq> CHR '':'' then Throws
         else if scheme \<in> set [''http'', ''https'', ''ftp'', ''ws'', ''wss'']
              then parseAuthority
                     (takeWhile (\<lambda>c. \<not> isAuthorityEnd c)
                        (dropWhile (\<lambda>c. c = CHR ''/'' \<or> c = CHR 0x5C) (tl rest)))
         else Unmodelled)"

definition platformURL :: urlParser where
  \<comment> \<open>a parser that agrees with the model wherever the model answers; on the other
      inputs nothing is fixed about it\<close>
  "platformURL s =
     (case whatwgHostname s of
        Hostname h \<Rightarrow> Some h
      | Throws \<Rightarrow> None
      | Unmodelled \<Rightarrow> undefined s)"

section \<open>Notions of the specification\<close>

definition noHostname :: "string option \<Rightarrow> bool" where
  \<comment> \<open>hostname extraction failed: \<open>!hostname\<close> in \<open>analyzeURL\<close>\<close>
  "noHostname h = (h = None \<or> h = Some [])"

definition severity :: "verdict \<Rightarrow> nat" where
  \<comment> \<open>the order \<open>Safe < Suspicious < Fraudulent\<close>\<close>
  "severity v = (case v of Safe \<Rightarrow> 0 | Suspicious \<Rightarrow> 1 | Fraudulent \<Rightarrow> 2)"

definition weightOf :: "string \<Rightarrow> nat" where
  \<comment> \<open>the weight of the rule that a reason text belongs to\<close>
  "weightOf r =
     (if r = ''Malformed or missing protocol.'' then 1
      else if r = ''Cannot parse hostname.'' then 3
      else if r = ''Uses raw IP address.'' then 5
      else if r = ''Very long URL.'' then 2
      else if r = ''Very long hostname.'' then 2
      else if r = ''Multiple subdomains.'' then 2
      else if startsWith r ''Suspicious TLD: '' then 3
      else if r = ''Contains percent-encoding.'' then 1
      else if r = ''Contains '@' symbol.'' then 4
      else if r = ''Many hyphens in domain.'' then 1
      else if r = ''Many digits in domain.'' then 1
      else if startsWith r (''Contains keyword '' @ dq) then 2
      else if startsWith r (''Looks similar to popular site '' @ dq) then 4
      else if r = ''Long path or query.'' then 1
      else if r = ''Many query parameters.'' then 1
      else 0)"

definition balanced :: "tally \<Rightarrow> bool" where
  \<comment> \<open>the running score is the sum of the weights of the reasons given so far\<close>
  "balanced t = (fst t = sum_list (map weightOf (snd t)))"

definition matchingKeywords :: "string \<Rightarrow> string list \<Rightarrow> string list" where
  \<comment> \<open>the configured keywords that occur in the lower-cased URL, in their order\<close>
  "matchingKeywords url kws = filter (\<lambda>kw. includesStr (toLowerCase url) kw) kws"

definition afterFirst :: "string \<Rightarrow> string \<Rightarrow> string" where
  \<comment> \<open>the substring of the URL after the first occurrence of the hostname text\<close>
  "afterFirst url hostname =
     (case indexOf url hostname of None \<Rightarrow> [] | Some j \<Rightarrow> drop (j + length hostname) url)"

subsection \<open>Edit distance\<close>

text \<open>
  One edit inserts, deletes or replaces a single character anywhere in a string. A
  string is transformed into another one by a chain of edits, and \<open>(edit1 ^^ n) a b\<close>
  says that there is a chain of \<open>n\<close> edits from \<open>a\<close> to \<open>b\<close>.
\<close>

inductive edit1 :: "string \<Rightarrow> string \<Rightarrow> bool" where
  insertion: "edit1 (xs @ ys) (xs @ c # ys)"
| deletion: "edit1 (xs @ c # ys) (xs @ ys)"
| substitution: "c \<noteq> d \<Longrightarrow> edit1 (xs @ c # ys) (xs @ d # ys)"

text \<open>The textbook recurrence, on the first characters of the two strings.\<close>

fun editDistance :: "string \<Rightarrow> string \<Rightarrow> nat" where
  "editDistance [] ys = length ys"
| "editDistance (x # xs) [] = Suc (length xs)"
| "editDistance (x # xs) (y # ys) =
     min (editDistance xs (y # ys) + 1)
       (min (editDistance (x # xs) ys + 1) (editDistance xs ys + (if x = y then 0 else 1)))"

definition prefixDist :: "string \<Rightarrow> string \<Rightarrow> nat \<Rightarrow> nat \<Rightarrow> nat" where
  \<comment> \<open>what the cell \<open>dp[i][j]\<close> is to hold: the distance between the first \<open>i\<close>
      characters of \<open>a\<close> and the first \<open>j\<close> characters of \<open>b\<close>\<close>
  "prefixDist a b i j = editDistance (rev (take i a)) (rev (take j b))"

definition shaped :: "nat \<Rightarrow> nat \<Rightarrow> table \<Rightarrow> bool" where
  \<comment> \<open>\<open>m + 1\<close> rows of \<open>n + 1\<close> slots\<close>
  "shaped m n dp = (length dp = m + 1 \<and> (\<forall>r \<le> m. length (dp ! r) = n + 1))"

definition filled :: "string \<Rightarrow> string \<Rightarrow> nat \<Rightarrow> nat \<Rightarrow> table \<Rightarrow> bool" where
  \<comment> \<open>the invariant of the loops when they reach the cell \<open>(i, j)\<close>: row 0, column 0,
      the rows above \<open>i\<close> and the cells of row \<open>i\<close> left of \<open>j\<close> hold their
      distances\<close>
  "filled a b i j dp =
     (shaped (length a) (length b) dp
      \<and> (\<forall>r c. r \<le> length a \<and> c \<le> length b \<and> (r = 0 \<or> c = 0 \<or> r < i \<or> (r = i \<and> c < j))
            \<longrightarrow> getCell dp r c = Some (prefixDist a b r c)))"

section \<open>The run of the engine, with the exceptions of JavaScript\<close>

text \<open>
  The definitions so far give the value that each function returns. The ones of this
  section follow the same statements and keep what can go wrong on the way: the URL
  constructor throws, and a property access or a method call on \<open>null\<close> or
  \<open>undefined\<close> (the hostname when there is none, the result of a \<open>match\<close> that
  found nothing, a missing piece of a \<open>split\<close>, a missing row of the table) raises a
  \<open>TypeError\<close>. A run ends in \<open>Inl TypeError\<close> when an exception reaches the caller
  and in \<open>Inr\<close> of the value returned otherwise. The hostname is a
  \<^typ>\<open>string option\<close> here, \<open>None\<close> for \<open>null\<close>.
\<close>

datatype jsError = TypeError

definition thenJs :: "jsError + 'a \<Rightarrow> ('a \<Rightarrow> jsError + 'b) \<Rightarrow> jsError + 'b" where
  \<comment> \<open>the next statement runs unless an exception is on its way\<close>
  "thenJs m f = (case m of Inl e \<Rightarrow> Inl e | Inr x \<Rightarrow> f x)"

definition receiver :: "'a option \<Rightarrow> jsError + 'a" where
  \<comment> \<open>the object of a property access or a method call: a \<open>TypeError\<close> on
      \<open>null\<close> and on \<open>undefined\<close>\<close>
  "receiver x = (case x of None \<Rightarrow> Inl TypeError | Some v \<Rightarrow> Inr v)"

definition orEmpty :: "'a list option \<Rightarrow> 'a list option" where
  \<comment> \<open>\<open>x || []\<close> and \<open>x || ""\<close>: the empty default for \<open>null\<close> and
      \<open>undefined\<close>; an array stays, and so does a string, the empty one being the
      default itself\<close>
  "orEmpty x = (case x of None \<Rightarrow> Some [] | Some v \<Rightarrow> Some v)"

definition toStringJs :: "string option \<Rightarrow> string" where
  \<comment> \<open>the string that \<open>regex.test(x)\<close> and \<open>url.split(x)\<close> make of \<open>x\<close>\<close>
  "toStringJs x = (case x of None \<Rightarrow> ''null'' | Some s \<Rightarrow> s)"

definition construct :: "urlParser \<Rightarrow> string \<Rightarrow> jsError + string" where
  \<comment> \<open>\<open>new URL(tmp).hostname\<close>, with the exception of the constructor\<close>
  "construct parse tmp = (case parse tmp of None \<Rightarrow> Inl TypeError | Some h \<Rightarrow> Inr h)"

definition tryCatch :: "jsError + 'a \<Rightarrow> 'a \<Rightarrow> 'a" where
  \<comment> \<open>\<open>try { body } catch { handler }\<close>\<close>
  "tryCatch body handler = (case body of Inl e \<Rightarrow> handler | Inr v \<Rightarrow> v)"

definition charAt :: "string \<Rightarrow> int \<Rightarrow> char option" where
  \<comment> \<open>\<open>s[k]\<close>, \<open>undefined\<close> outside the string\<close>
  "charAt s k = (if 0 \<le> k \<and> k < int (length s) then Some (s ! nat k) else None)"

definition readCell :: "table \<Rightarrow> int \<Rightarrow> int \<Rightarrow> jsError + cell" where
  \<comment> \<open>\<open>dp[i][j]\<close> read: a \<open>TypeError\<close> when there is no row \<open>dp[i]\<close>,
      \<open>undefined\<close> when the row has no slot \<open>j\<close>\<close>
  "readCell dp i j =
     (if 0 \<le> i \<and> i < int (length dp)
      then Inr (if 0 \<le> j \<and> j < int (length (dp ! nat i)) then dp ! nat i ! nat j else None)
      else Inl TypeError)"

definition putAt :: "cell list \<Rightarrow> nat \<Rightarrow> cell \<Rightarrow> cell list" where
  \<comment> \<open>\<open>row[j] = v\<close>, which lengthens the row when it has no slot \<open>j\<close>\<close>
  "putAt row j v =
     (if j < length row then row[j := v] else row @ replicate (j - length row) None @ [v])"

definition writeCell :: "table \<Rightarrow> nat \<Rightarrow> nat \<Rightarrow> cell \<Rightarrow> jsError + table" where
  \<comment> \<open>\<open>dp[i][j] = v\<close>: a \<open>TypeError\<close> when there is no row \<open>dp[i]\<close>\<close>
  "writeCell dp i j v =
     (if i < length dp then Inr (dp[i := putAt (dp ! i) j v]) else Inl TypeError)"

function runInitColumn :: "nat \<Rightarrow> nat \<Rightarrow> table \<Rightarrow> jsError + table" where
  \<comment> \<open>the loop of line 24, from \<open>i\<close> on\<close>
  "runInitColumn i m dp =
     (if i \<le> m
      then case writeCell dp i 0 (Some i) of
             Inl e \<Rightarrow> Inl e
           | Inr dp' \<Rightarrow> runInitColumn (i + 1) m dp'
      else Inr dp)"
  by pat_completeness auto
termination
  by (relation "measure (\<lambda>(i, m, dp). m + 1 - i)") auto

function runInitRow :: "nat \<Rightarrow> nat \<Rightarrow> table \<Rightarrow> jsError + table" where
  \<comment> \<open>the loop of line 25, from \<open>j\<close> on\<close>
  "runInitRow j n dp =
     (if j \<le> n
      then case writeCell dp 0 j (Some j) of
             Inl e \<Rightarrow> Inl e
           | Inr dp' \<Rightarrow> runInitRow (j + 1) n dp'
      else Inr dp)"
  by pat_completeness auto
termination
  by (relation "measure (\<lambda>(j, n, dp). n + 1 - j)") auto

definition runFillCell :: "string \<Rightarrow> string \<Rightarrow> nat \<Rightarrow> nat \<Rightarrow> table \<Rightarrow> jsError + table" where
  \<comment> \<open>the body of the inner loop\<close>
  "runFillCell a b i j dp =
     (let cost = (if charAt a (int i - 1) = charAt b (int j - 1) then 0 else 1)
      in thenJs (readCell dp (int i - 1) (int j)) (\<lambda>up.
         thenJs (readCell dp (int i) (int j - 1)) (\<lambda>left.
         thenJs (readCell dp (int i - 1) (int j - 1)) (\<lambda>diag.
         writeCell dp i j (min3 (plusCell up 1) (plusCell left 1) (plusCell diag cost))))))"

function runFillRow :: "string \<Rightarrow> string \<Rightarrow> nat \<Rightarrow> nat \<Rightarrow> table \<Rightarrow> jsError + table" where
  \<comment> \<open>the inner loop of line 27, from \<open>j\<close> on\<close>
  "runFillRow a b i j dp =
     (if j \<le> length b
      then case runFillCell a b i j dp of
             Inl e \<Rightarrow> Inl e
           | Inr dp' \<Rightarrow> runFillRow a b i (j + 1) dp'
      else Inr dp)"
  by pat_completeness auto
termination
  by (relation "measure (\<lambda>(a, b, i, j, dp). length b + 1 - j)") auto

function runFillTable :: "string \<Rightarrow> string \<Rightarrow> nat \<Rightarrow> table \<Rightarrow> jsError + table" where
  \<comment> \<open>the outer loop of line 26, from \<open>i\<close> on\<close>
  "runFillTable a b i dp =
     (if i \<le> length a
      then case runFillRow a b i 1 dp of
             Inl e \<Rightarrow> Inl e
           | Inr dp' \<Rightarrow> runFillTable a b (i + 1) dp'
      else Inr dp)"
  by pat_completeness auto
termination
  by (relation "measure (\<lambda>(a, b, i, dp). length a + 1 - i)") auto

definition runLevenshtein :: "string \<Rightarrow> string \<Rightarrow> jsError + nat option" where
  \<comment> \<open>\<open>levenshtein\<close>\<close>
  "runLevenshtein a b =
     (if a = [] then Inr (Some (length b))
      else if b = [] then Inr (Some (length a))
      else let m = length a; n = length b
           in thenJs (runInitColumn 0 m (newTable m n)) (\<lambda>dp.
              thenJs (runInitRow 0 n dp) (\<lambda>dp.
              thenJs (runFillTable a b 1 dp) (\<lambda>dp.
              readCell dp (int m) (int n)))))"

definition runGetHostname :: "urlParser \<Rightarrow> string \<Rightarrow> string option" where
  \<comment> \<open>\<open>getHostname\<close>: whatever is thrown inside \<open>try\<close> ends in \<open>null\<close>\<close>
  "runGetHostname parse url =
     tryCatch
       (let tmp = (if \<not> hasScheme url then ''http://'' @ url else url)
        in thenJs (construct parse tmp) (\<lambda>h. Inr (Some (toLowerCase h))))
       None"

definition runMatchCount :: "(char \<Rightarrow> bool) \<Rightarrow> string option \<Rightarrow> jsError + nat" where
  \<comment> \<open>\<open>(s.match(/[class]/g) || []).length\<close>; \<open>match\<close> gives \<open>null\<close> when
      nothing matches\<close>
  "runMatchCount P s =
     thenJs (receiver s) (\<lambda>str.
     thenJs (receiver (orEmpty (if filter P str = [] then None else Some (filter P str)))) (\<lambda>found.
     Inr (length found)))"

fun runTldRule :: "string list \<Rightarrow> string option \<Rightarrow> tally \<Rightarrow> jsError + tally" where
  \<comment> \<open>the loop of lines 77 to 79; \<open>hostname.endsWith\<close> is a method call\<close>
  "runTldRule [] hostname t = Inr t"
| "runTldRule (tld # tlds) hostname t =
     (case receiver hostname of
        Inl e \<Rightarrow> Inl e
      | Inr h \<Rightarrow>
          if endsWith h tld then Inr (report (tldReason tld) 3 t)
          else runTldRule tlds hostname t)"

fun runTyposquatRule :: "string list \<Rightarrow> string \<Rightarrow> tally \<Rightarrow> jsError + tally" where
  \<comment> \<open>the loop of lines 96 to 102\<close>
  "runTyposquatRule [] normalized t = Inr t"
| "runTyposquatRule (pd # pds) normalized t =
     (case runLevenshtein normalized pd of
        Inl e \<Rightarrow> Inl e
      | Inr dist \<Rightarrow>
          if (case dist of
                None \<Rightarrow> False
              | Some d \<Rightarrow> max (length normalized) (length pd) \<noteq> 0
                    \<and> 4 * d \<le> max (length normalized) (length pd))
             \<and> normalized \<noteq> pd
          then Inr (report (typosquatReason pd) 4 t)
          else runTyposquatRule pds normalized t)"

definition runPathRules :: "string option \<Rightarrow> tally \<Rightarrow> jsError + tally" where
  \<comment> \<open>lines 106 and 107\<close>
  "runPathRules path t =
     thenJs (receiver path) (\<lambda>p.
     let t = check (length p > 80) ''Long path or query.'' 1 t
     in thenJs (runMatchCount (\<lambda>c. c = CHR ''?'' \<or> c = CHR ''&'') path) (\<lambda>k.
        Inr (check (k \<ge> 5) ''Many query parameters.'' 1 t)))"

definition runHostRules :: "config \<Rightarrow> string \<Rightarrow> string option \<Rightarrow> tally \<Rightarrow> jsError + tally" where
  \<comment> \<open>lines 63 to 107, statement by statement\<close>
  "runHostRules cfg url hostname t =
     (let t = check (isRawIP (toStringJs hostname)) ''Uses raw IP address.'' 5 t;
          t = check (length url > 100) ''Very long URL.'' 2 t
      in thenJs (receiver hostname) (\<lambda>h.
         let t = check (length h > 50) ''Very long hostname.'' 2 t
         in thenJs (receiver hostname) (\<lambda>h.
         let t = check (length (splitStr h ''.'') \<ge> 4) ''Multiple subdomains.'' 2 t
         in thenJs (runTldRule (suspiciousTLDs cfg) hostname t) (\<lambda>t.
         let t = check (hasPercentEncoding url) ''Contains percent-encoding.'' 1 t;
             t = check (CHR ''@'' \<in> set url) ''Contains '@' symbol.'' 4 t
         in thenJs (runMatchCount (\<lambda>c. c = CHR ''-'') hostname) (\<lambda>hyphens.
         let t = check (hyphens \<ge> 2) ''Many hyphens in domain.'' 1 t
         in thenJs (runMatchCount isDigit hostname) (\<lambda>digits.
         let t = check (digits \<ge> 3) ''Many digits in domain.'' 1 t;
             t = keywordRule (fraudKeywords cfg) url t
         in thenJs (receiver hostname) (\<lambda>h.
         thenJs (runTyposquatRule (popularDomains cfg) (normalize h) t) (\<lambda>t.
         let path = orEmpty (case splitStr url (toStringJs hostname) of
                               _ # p # _ \<Rightarrow> Some p
                             | _ \<Rightarrow> None)
         in runPathRules path t))))))))"

definition runAnalyzeURL :: "urlParser \<Rightarrow> config \<Rightarrow> string \<Rightarrow> jsError + analysisResult" where
  \<comment> \<open>\<open>analyzeURL\<close>\<close>
  "runAnalyzeURL parse cfg url =
     (let t = formatCheck url (0, []);
          hostname = runGetHostname parse url
      in if noHostname hostname then Inr (cannotParse t)
         else thenJs (runHostRules cfg url hostname t) (\<lambda>t.
              Inr \<lparr>score = fst t, verdict = verdictOf (fst t), reasons = snd t\<rparr>))"

section \<open>The engine: score, reasons and verdict\<close>

lemma startsWith_append [simp]: "startsWith (p @ s) p"
  by (induction p) auto

lemma weightOf_fixed [simp]:
  "weightOf ''Malformed or missing protocol.'' = 1"
  "weightOf ''Cannot parse hostname.'' = 3"
  "weightOf ''Uses raw IP address.'' = 5"
  "weightOf ''Very long URL.'' = 2"
  "weightOf ''Very long hostname.'' = 2"
  "weightOf ''Multiple subdomains.'' = 2"
  "weightOf ''Contains percent-encoding.'' = 1"
  "weightOf ''Contains '@' symbol.'' = 4"
  "weightOf ''Many hyphens in domain.'' = 1"
  "weightOf ''Many digits in domain.'' = 1"
  "weightOf ''Long path or query.'' = 1"
  "weightOf ''Many query parameters.'' = 1"
  by (simp_all add: weightOf_def dq_def)

lemma weightOf_tld [simp]: "weightOf (tldReason tld) = 3"
  by (simp add: weightOf_def tldReason_def)

lemma weightOf_keyword [simp]: "weightOf (keywordReason kw) = 2"
  by (simp add: weightOf_def keywordReason_def dq_def)

lemma weightOf_typosquat [simp]: "weightOf (typosquatReason pd) = 4"
  by (simp add: weightOf_def typosquatReason_def dq_def)

lemma balanced_report: "balanced t \<Longrightarrow> weightOf r = w \<Longrightarrow> balanced (report r w t)"
  by (simp add: balanced_def report_def)

lemma balanced_check: "balanced t \<Longrightarrow> weightOf r = w \<Longrightarrow> balanced (check c r w t)"
  by (simp add: check_def balanced_report)

lemma balanced_tldRule: "balanced t \<Longrightarrow> balanced (tldRule tlds h t)"
  by (induction tlds) (simp_all add: balanced_report)

lemma balanced_keywordRule: "balanced t \<Longrightarrow> balanced (keywordRule kws url t)"
  by (induction kws arbitrary: t) (simp_all add: balanced_check)

lemma balanced_typosquatRule: "balanced t \<Longrightarrow> balanced (typosquatRule pds n t)"
  by (induction pds) (simp_all add: balanced_report)

lemma balanced_pathRules: "balanced t \<Longrightarrow> balanced (pathRules p t)"
  by (simp add: pathRules_def Let_def balanced_check)

lemma balanced_formatCheck: "balanced t \<Longrightarrow> balanced (formatCheck url t)"
  by (simp add: formatCheck_def balanced_check)

lemma balanced_hostRules: "balanced t \<Longrightarrow> balanced (hostRules cfg url h t)"
  unfolding hostRules_def Let_def
  by (intro balanced_pathRules balanced_typosquatRule balanced_keywordRule balanced_tldRule
        balanced_check weightOf_fixed)

lemma balanced_init: "balanced (0, [])"
  by (simp add: balanced_def)


lemma analyzeURL_noHostname:
  "noHostname (getHostname parse url) \<Longrightarrow>
   analyzeURL parse cfg url = cannotParse (formatCheck url (0, []))"
  by (auto simp: analyzeURL_def noHostname_def Let_def)

lemma analyzeURL_hostname:
  "getHostname parse url = Some h \<Longrightarrow> h \<noteq> [] \<Longrightarrow>
   analyzeURL parse cfg url =
     \<lparr>score = fst (hostRules cfg url h (formatCheck url (0, []))),
      verdict = verdictOf (fst (hostRules cfg url h (formatCheck url (0, [])))),
      reasons = snd (hostRules cfg url h (formatCheck url (0, [])))\<rparr>"
  by (simp add: analyzeURL_def Let_def)

lemma noHostname_cases:
  obtains "noHostname (getHostname parse url)"
  | h where "getHostname parse url = Some h" "h \<noteq> []"
  by (cases "getHostname parse url") (auto simp: noHostname_def)

lemma formatCheck_init:
  "formatCheck url (0, []) =
     (if matchesSchemeUrl url \<or> matchesBareDomain url then (0, [])
      else (1, [''Malformed or missing protocol.'']))"
  by (simp add: formatCheck_def check_def report_def)

lemma cannotParse_eq:
  "cannotParse t = \<lparr>score = fst t + 3, verdict = Fraudulent,
                     reasons = snd t @ [''Cannot parse hostname.'']\<rparr>"
  by (simp add: cannotParse_def report_def Let_def)

lemma getHostname_not_a_url: "getHostname platformURL ''not a url at all'' = None"
  by code_simp

lemma formatCheck_not_a_url:
  "formatCheck ''not a url at all'' (0, []) = (1, [''Malformed or missing protocol.''])"
  by code_simp

lemma getHostname_bad_port: "getHostname platformURL ''http://example.com:port'' = None"
  by code_simp

lemma getHostname_example: "getHostname platformURL ''example.com'' = Some ''example.com''"
  by code_simp

text \<open>
  C2. For every URL and every configuration the score of the result is the sum of the
  weights of the rules whose reasons are in the result, and the verdict is a function of
  the score, except where hostname extraction fails: there it is \<open>Fraudulent\<close>.
\<close>

theorem score_is_sum_of_weights:
  "score (analyzeURL parse cfg url) = sum_list (map weightOf (reasons (analyzeURL parse cfg url)))
   \<and> verdict (analyzeURL parse cfg url) =
       (if noHostname (getHostname parse url) then Fraudulent
        else verdictOf (score (analyzeURL parse cfg url)))"
proof (cases rule: noHostname_cases [of parse url])
  case 1
  then show ?thesis
    by (simp add: analyzeURL_noHostname cannotParse_eq formatCheck_init)
next
  case (2 h)
  have "balanced (hostRules cfg url h (formatCheck url (0, [])))"
    by (intro balanced_hostRules balanced_formatCheck balanced_init)
  with 2 show ?thesis
    by (simp add: analyzeURL_hostname balanced_def noHostname_def)
qed

theorem score_is_sum_of_weights_witness:
  "score (analyzeURL platformURL defaultConfig ''not a url at all'') = 1 + 3
   \<and> verdict (analyzeURL platformURL defaultConfig ''not a url at all'') = Fraudulent
   \<and> verdictOf (score (analyzeURL platformURL defaultConfig ''not a url at all'')) = Suspicious"
  using score_is_sum_of_weights [of platformURL defaultConfig "''not a url at all''"]
    getHostname_not_a_url formatCheck_not_a_url
  by (simp add: noHostname_def analyzeURL_noHostname cannotParse_eq verdictOf_def)

text \<open>
  C3. When hostname extraction fails, \<open>analyzeURL\<close> adds the reason
  \<open>Cannot parse hostname.\<close> with weight 3 to what the format check gave and returns at
  once with the verdict \<open>Fraudulent\<close>: the result holds no reason of any later rule.
\<close>

theorem parse_failure_short_circuit:
  assumes "getHostname parse url = None"
  shows "analyzeURL parse cfg url =
           \<lparr>score = fst (formatCheck url (0, [])) + 3, verdict = Fraudulent,
            reasons = snd (formatCheck url (0, [])) @ [''Cannot parse hostname.'']\<rparr>
         \<and> set (reasons (analyzeURL parse cfg url))
             \<subseteq> {''Malformed or missing protocol.'', ''Cannot parse hostname.''}"
proof -
  from assms have "noHostname (getHostname parse url)"
    by (simp add: noHostname_def)
  then have "analyzeURL parse cfg url = cannotParse (formatCheck url (0, []))"
    by (rule analyzeURL_noHostname)
  then show ?thesis
    by (simp add: cannotParse_eq formatCheck_init)
qed

theorem parse_failure_short_circuit_witness:
  "getHostname platformURL ''not a url at all'' = None
   \<and> analyzeURL platformURL defaultConfig ''not a url at all'' =
       \<lparr>score = 4, verdict = Fraudulent,
        reasons = [''Malformed or missing protocol.'', ''Cannot parse hostname.'']\<rparr>"
  using parse_failure_short_circuit [OF getHostname_not_a_url, of defaultConfig]
    getHostname_not_a_url formatCheck_not_a_url
  by simp

text \<open>
  C4. The verdict is a function of the final score: \<open>Fraudulent\<close> from 8 on,
  \<open>Suspicious\<close> from 4 on, \<open>Safe\<close> below; a larger score never has a less severe
  verdict; and \<open>analyzeURL\<close> maps its final score with it whenever it has a hostname.
\<close>

theorem verdict_mapping_monotone:
  "verdictOf s = (if s \<ge> 8 then Fraudulent else if s \<ge> 4 then Suspicious else Safe)
   \<and> (s1 < s2 \<longrightarrow> severity (verdictOf s1) \<le> severity (verdictOf s2))
   \<and> (getHostname parse url = Some h \<and> h \<noteq> [] \<longrightarrow>
        verdict (analyzeURL parse cfg url) = verdictOf (score (analyzeURL parse cfg url)))"
  by (auto simp: verdictOf_def severity_def analyzeURL_hostname)

theorem verdict_mapping_monotone_witness:
  "(3::nat) < 4 \<and> severity (verdictOf 3) \<le> severity (verdictOf 4)
   \<and> getHostname platformURL ''example.com'' = Some ''example.com''
   \<and> verdict (analyzeURL platformURL defaultConfig ''example.com'')
       = verdictOf (score (analyzeURL platformURL defaultConfig ''example.com''))"
proof -
  have h: "getHostname platformURL ''example.com'' = Some ''example.com''
           \<and> ''example.com'' \<noteq> []"
    using getHostname_example by simp
  have lt: "(3::nat) < 4"
    by simp
  from verdict_mapping_monotone [of 3 3 4 platformURL "''example.com''" "''example.com''"
      defaultConfig] h lt
  show ?thesis
    by blast
qed

text \<open>
  C10. When hostname extraction fails, the score is 3 and there is one reason if the URL
  passed the format check (either pattern matched), and the score is 4 and there are two
  reasons otherwise.
\<close>

theorem parse_failure_score:
  assumes "noHostname (getHostname parse url)"
  shows "score (analyzeURL parse cfg url)
           = (if matchesSchemeUrl url \<or> matchesBareDomain url then 3 else 4)
         \<and> length (reasons (analyzeURL parse cfg url))
           = (if matchesSchemeUrl url \<or> matchesBareDomain url then 1 else 2)"
  using assms by (simp add: analyzeURL_noHostname cannotParse_eq formatCheck_init)

theorem parse_failure_score_witness:
  "noHostname (getHostname platformURL ''not a url at all'')
   \<and> score (analyzeURL platformURL defaultConfig ''not a url at all'') = 4
   \<and> length (reasons (analyzeURL platformURL defaultConfig ''not a url at all'')) = 2
   \<and> noHostname (getHostname platformURL ''http://example.com:port'')
   \<and> score (analyzeURL platformURL defaultConfig ''http://example.com:port'') = 3
   \<and> length (reasons (analyzeURL platformURL defaultConfig ''http://example.com:port'')) = 1"
proof -
  have a: "noHostname (getHostname platformURL ''not a url at all'')"
    by (simp add: noHostname_def getHostname_not_a_url)
  have b: "noHostname (getHostname platformURL ''http://example.com:port'')"
    by (simp add: noHostname_def getHostname_bad_port)
  have fa: "\<not> (matchesSchemeUrl ''not a url at all'' \<or> matchesBareDomain ''not a url at all'')"
    by code_simp
  have fb: "matchesSchemeUrl ''http://example.com:port''"
    by code_simp
  show ?thesis
    using parse_failure_score [OF a, of defaultConfig] parse_failure_score [OF b, of defaultConfig]
      a b fa fb
    by simp
qed

section \<open>The keyword rule\<close>

lemma keywordRule_eq:
  "keywordRule kws url t =
     (fst t + 2 * length (matchingKeywords url kws),
      snd t @ map keywordReason (matchingKeywords url kws))"
  by (induction kws arbitrary: t) (simp_all add: matchingKeywords_def check_def report_def)

lemma keywordReason_inj [simp]: "keywordReason a = keywordReason b \<longleftrightarrow> a = b"
  by (simp add: keywordReason_def)

lemma count_keywordReason:
  "count_list (map keywordReason xs) (keywordReason kw) = count_list xs kw"
  by (induction xs) simp_all

lemma count_distinct_le: "distinct xs \<Longrightarrow> count_list xs x \<le> 1"
  by (induction xs) (auto simp: count_list_0_iff)

lemma count_report:
  "r \<noteq> x \<Longrightarrow> count_list (snd (report r w t)) x = count_list (snd t) x"
  by (simp add: report_def)

lemma count_check:
  "r \<noteq> x \<Longrightarrow> count_list (snd (check c r w t)) x = count_list (snd t) x"
  by (simp add: check_def count_report)

lemma tldReason_neq [simp]: "tldReason tld \<noteq> keywordReason kw"
  by (simp add: tldReason_def keywordReason_def)

lemma typosquatReason_neq [simp]: "typosquatReason pd \<noteq> keywordReason kw"
  by (simp add: typosquatReason_def keywordReason_def)

lemma fixed_neq_keywordReason [simp]:
  "''Malformed or missing protocol.'' \<noteq> keywordReason kw"
  "''Cannot parse hostname.'' \<noteq> keywordReason kw"
  "''Uses raw IP address.'' \<noteq> keywordReason kw"
  "''Very long URL.'' \<noteq> keywordReason kw"
  "''Very long hostname.'' \<noteq> keywordReason kw"
  "''Multiple subdomains.'' \<noteq> keywordReason kw"
  "''Contains percent-encoding.'' \<noteq> keywordReason kw"
  "''Contains '@' symbol.'' \<noteq> keywordReason kw"
  "''Many hyphens in domain.'' \<noteq> keywordReason kw"
  "''Many digits in domain.'' \<noteq> keywordReason kw"
  "''Long path or query.'' \<noteq> keywordReason kw"
  "''Many query parameters.'' \<noteq> keywordReason kw"
  by (simp_all add: keywordReason_def dq_def)

lemma count_tldRule:
  "count_list (snd (tldRule tlds h t)) (keywordReason kw) = count_list (snd t) (keywordReason kw)"
  by (induction tlds) (simp_all add: count_report)

lemma count_typosquatRule:
  "count_list (snd (typosquatRule pds n t)) (keywordReason kw)
     = count_list (snd t) (keywordReason kw)"
  by (induction pds) (simp_all add: count_report)

lemma count_pathRules:
  "count_list (snd (pathRules p t)) (keywordReason kw) = count_list (snd t) (keywordReason kw)"
  by (simp add: pathRules_def Let_def count_check)

lemma count_formatCheck:
  "count_list (snd (formatCheck url t)) (keywordReason kw) = count_list (snd t) (keywordReason kw)"
  by (simp add: formatCheck_def count_check)

lemma count_hostRules:
  "count_list (snd (hostRules cfg url h t)) (keywordReason kw)
     = count_list (snd t) (keywordReason kw) + count_list (matchingKeywords url (fraudKeywords cfg)) kw"
  by (simp add: hostRules_def Let_def count_pathRules count_typosquatRule count_tldRule
      count_check keywordRule_eq count_keywordReason)

lemma getHostname_login:
  "getHostname platformURL ''http://login.example.com/login'' = Some ''login.example.com''"
  by code_simp

lemma matchingKeywords_login:
  "matchingKeywords ''http://login.example.com/login'' (fraudKeywords defaultConfig) = [''login'']"
  by code_simp

lemma distinct_FRAUD_KEYWORDS: "distinct (fraudKeywords defaultConfig)"
  by code_simp

text \<open>
  C8. The keyword rule adds one reason and weight 2 for every configured keyword that
  occurs in the lower-cased URL, however often it occurs there, and nothing else: the
  matching keywords add up without a cap, and with pairwise distinct keywords the
  reason of a keyword is in the result at most once.
\<close>

theorem keyword_rule_once_per_keyword:
  "keywordRule kws url t =
     (fst t + 2 * length (matchingKeywords url kws),
      snd t @ map keywordReason (matchingKeywords url kws))
   \<and> (distinct (fraudKeywords cfg) \<longrightarrow>
        count_list (reasons (analyzeURL parse cfg url)) (keywordReason kw) \<le> 1)
   \<and> (getHostname parse url = Some h \<and> h \<noteq> [] \<longrightarrow>
        count_list (reasons (analyzeURL parse cfg url)) (keywordReason kw)
          = count_list (matchingKeywords url (fraudKeywords cfg)) kw)"
proof (intro conjI impI)
  show "keywordRule kws url t =
     (fst t + 2 * length (matchingKeywords url kws),
      snd t @ map keywordReason (matchingKeywords url kws))"
    by (rule keywordRule_eq)
next
  assume "getHostname parse url = Some h \<and> h \<noteq> []"
  then show "count_list (reasons (analyzeURL parse cfg url)) (keywordReason kw)
          = count_list (matchingKeywords url (fraudKeywords cfg)) kw"
    by (simp add: analyzeURL_hostname count_hostRules count_formatCheck)
next
  assume d: "distinct (fraudKeywords cfg)"
  show "count_list (reasons (analyzeURL parse cfg url)) (keywordReason kw) \<le> 1"
  proof (cases rule: noHostname_cases [of parse url])
    case 1
    then show ?thesis
      by (simp add: analyzeURL_noHostname cannotParse_eq count_formatCheck)
  next
    case (2 h')
    from d have "distinct (matchingKeywords url (fraudKeywords cfg))"
      by (simp add: matchingKeywords_def)
    then have "count_list (matchingKeywords url (fraudKeywords cfg)) kw \<le> 1"
      by (rule count_distinct_le)
    with 2 show ?thesis
      by (simp add: analyzeURL_hostname count_hostRules count_formatCheck)
  qed
qed

theorem keyword_rule_once_per_keyword_witness:
  "distinct (fraudKeywords defaultConfig)
   \<and> getHostname platformURL ''http://login.example.com/login'' = Some ''login.example.com''
   \<and> count_list (reasons (analyzeURL platformURL defaultConfig ''http://login.example.com/login''))
        (keywordReason ''login'') = 1"
  using keyword_rule_once_per_keyword [of "[]" "''http://login.example.com/login''" "(0, [])"
      defaultConfig platformURL "''login''" "''login.example.com''"]
    getHostname_login matchingKeywords_login distinct_FRAUD_KEYWORDS
  by simp

section \<open>The typosquat rule\<close>

lemma typosquatRule_find:
  "typosquatRule pds n t =
     (case find (similar n) pds of None \<Rightarrow> t | Some pd \<Rightarrow> report (typosquatReason pd) 4 t)"
  by (induction pds) simp_all

lemma typosquatReason_inj [simp]: "typosquatReason a = typosquatReason b \<longleftrightarrow> a = b"
  by (simp add: typosquatReason_def)

lemma keywordReason_neq_typosquat [simp]: "keywordReason kw \<noteq> typosquatReason pd"
  by (simp add: typosquatReason_def keywordReason_def)

lemma tldReason_neq_typosquat [simp]:
  "tldReason tld \<noteq> typosquatReason pd" "typosquatReason pd \<noteq> tldReason tld"
  by (simp_all add: typosquatReason_def tldReason_def)

lemma fixed_neq_typosquatReason [simp]:
  "''Malformed or missing protocol.'' \<noteq> typosquatReason pd"
  "''Cannot parse hostname.'' \<noteq> typosquatReason pd"
  "''Uses raw IP address.'' \<noteq> typosquatReason pd"
  "''Very long URL.'' \<noteq> typosquatReason pd"
  "''Very long hostname.'' \<noteq> typosquatReason pd"
  "''Multiple subdomains.'' \<noteq> typosquatReason pd"
  "''Contains percent-encoding.'' \<noteq> typosquatReason pd"
  "''Contains '@' symbol.'' \<noteq> typosquatReason pd"
  "''Many hyphens in domain.'' \<noteq> typosquatReason pd"
  "''Many digits in domain.'' \<noteq> typosquatReason pd"
  "''Long path or query.'' \<noteq> typosquatReason pd"
  "''Many query parameters.'' \<noteq> typosquatReason pd"
  by (simp_all add: typosquatReason_def dq_def)

lemma typo_tldRule:
  "typosquatReason pd \<in> set (snd (tldRule tlds h t)) \<longleftrightarrow> typosquatReason pd \<in> set (snd t)"
  by (induction tlds) (auto simp: report_def)

lemma typo_keywordRule:
  "typosquatReason pd \<in> set (snd (keywordRule kws url t)) \<longleftrightarrow> typosquatReason pd \<in> set (snd t)"
  by (induction kws arbitrary: t) (auto simp: report_def check_def)

lemma typo_check:
  "r \<noteq> typosquatReason pd \<Longrightarrow>
   typosquatReason pd \<in> set (snd (check c r w t)) \<longleftrightarrow> typosquatReason pd \<in> set (snd t)"
  by (auto simp: check_def report_def)

lemma typo_pathRules:
  "typosquatReason pd \<in> set (snd (pathRules p t)) \<longleftrightarrow> typosquatReason pd \<in> set (snd t)"
  by (simp add: pathRules_def Let_def typo_check)

lemma typo_formatCheck:
  "typosquatReason pd \<in> set (snd (formatCheck url t)) \<longleftrightarrow> typosquatReason pd \<in> set (snd t)"
  by (simp add: formatCheck_def typo_check)

lemma typo_hostRules:
  "typosquatReason pd \<in> set (snd (hostRules cfg url h t)) \<longleftrightarrow>
     typosquatReason pd \<in> set (snd t) \<or> find (similar (normalize h)) (popularDomains cfg) = Some pd"
  by (auto simp: hostRules_def Let_def typo_pathRules typosquatRule_find typo_keywordRule
      typo_check typo_tldRule report_def split: option.splits)

lemma getHostname_of_parse:
  "hasScheme url \<Longrightarrow> parse url = Some h \<Longrightarrow> getHostname parse url = Some (toLowerCase h)"
  by (simp add: getHostname_def)

lemma far_apart:
  "list_all (\<lambda>n. list_all (\<lambda>pd. \<not> similar n pd) POPULAR_DOMAINS) POPULAR_DOMAINS"
  by code_simp

lemma popular_not_similar:
  "n \<in> set POPULAR_DOMAINS \<Longrightarrow> list_all (\<lambda>pd. \<not> similar n pd) POPULAR_DOMAINS"
  using far_apart by (simp add: list_all_iff)

lemma popular_find_none:
  "n \<in> set POPULAR_DOMAINS \<Longrightarrow> find (similar n) POPULAR_DOMAINS = None"
  using popular_not_similar [of n] by (simp add: find_None_iff list_all_iff)

lemma go0gle_facts:
  "hasScheme ''http://go0gle.com''" "toLowerCase ''go0gle.com'' = ''go0gle.com''"
  "normalize ''go0gle.com'' = ''google.com''" "''google.com'' \<in> set POPULAR_DOMAINS"
  by code_simp+

lemma hostRules_go0gle:
  "hostRules defaultConfig ''http://go0gle.com'' ''go0gle.com''
     (formatCheck ''http://go0gle.com'' (0, [])) = (0, [])"
  by code_simp

lemma gooogle_facts:
  "hasScheme ''http://gooogle.com''" "toLowerCase ''gooogle.com'' = ''gooogle.com''"
  "levenshtein ''gooogle.com'' ''google.com'' = Some 1"
  by code_simp+

lemma hostRules_gooogle:
  "hostRules defaultConfig ''http://gooogle.com'' ''gooogle.com''
     (formatCheck ''http://gooogle.com'' (0, [])) = (4, [typosquatReason ''google.com''])"
  by code_simp

lemma platformURL_go0gle: "platformURL ''http://go0gle.com'' = Some ''go0gle.com''"
  by code_simp

lemma platformURL_gooogle: "platformURL ''http://gooogle.com'' = Some ''gooogle.com''"
  by code_simp

text \<open>
  C6. With the popular domains of the source, the typosquat rule does not fire on a
  hostname whose normalisation is one of them, so \<open>http://go0gle.com\<close> gets no typosquat
  reason; \<open>http://gooogle.com\<close>, at distance 1 from \<open>google.com\<close>, gets the reason
  naming \<open>google.com\<close>; and for every list of popular domains the rule adds at most one
  reason with weight 4, for the first domain of the list that qualifies.
\<close>

theorem typosquat_rule:
  "(normalize h \<in> set POPULAR_DOMAINS \<longrightarrow>
      typosquatRule POPULAR_DOMAINS (normalize h) t = t)
   \<and> (normalize h \<in> set POPULAR_DOMAINS \<and> getHostname parse url = Some h \<and> h \<noteq> [] \<longrightarrow>
        typosquatReason pd \<notin> set (reasons (analyzeURL parse defaultConfig url)))
   \<and> (parse ''http://go0gle.com'' = Some ''go0gle.com'' \<longrightarrow>
        analyzeURL parse defaultConfig ''http://go0gle.com''
          = \<lparr>score = 0, verdict = Safe, reasons = []\<rparr>)
   \<and> (parse ''http://gooogle.com'' = Some ''gooogle.com'' \<longrightarrow>
        analyzeURL parse defaultConfig ''http://gooogle.com''
          = \<lparr>score = 4, verdict = Suspicious, reasons = [typosquatReason ''google.com'']\<rparr>)
   \<and> levenshtein ''gooogle.com'' ''google.com'' = Some 1
   \<and> typosquatRule pds n t =
        (case find (similar n) pds of None \<Rightarrow> t | Some d \<Rightarrow> report (typosquatReason d) 4 t)
   \<and> (getHostname parse url = Some h \<and> h \<noteq> [] \<longrightarrow>
        (typosquatReason pd \<in> set (reasons (analyzeURL parse cfg url))
           \<longleftrightarrow> find (similar (normalize h)) (popularDomains cfg) = Some pd))"
proof (intro conjI impI)
  assume "normalize h \<in> set POPULAR_DOMAINS"
  then show "typosquatRule POPULAR_DOMAINS (normalize h) t = t"
    by (simp add: typosquatRule_find popular_find_none)
next
  assume "normalize h \<in> set POPULAR_DOMAINS \<and> getHostname parse url = Some h \<and> h \<noteq> []"
  then show "typosquatReason pd \<notin> set (reasons (analyzeURL parse defaultConfig url))"
    by (simp add: analyzeURL_hostname typo_hostRules typo_formatCheck popular_find_none
        defaultConfig_def)
next
  assume "parse ''http://go0gle.com'' = Some ''go0gle.com''"
  then have "getHostname parse ''http://go0gle.com'' = Some ''go0gle.com''"
    using getHostname_of_parse [OF go0gle_facts(1)] go0gle_facts(2) by simp
  then show "analyzeURL parse defaultConfig ''http://go0gle.com''
          = \<lparr>score = 0, verdict = Safe, reasons = []\<rparr>"
    by (simp add: analyzeURL_hostname hostRules_go0gle verdictOf_def)
next
  assume "parse ''http://gooogle.com'' = Some ''gooogle.com''"
  then have "getHostname parse ''http://gooogle.com'' = Some ''gooogle.com''"
    using getHostname_of_parse [OF gooogle_facts(1)] gooogle_facts(2) by simp
  then show "analyzeURL parse defaultConfig ''http://gooogle.com''
          = \<lparr>score = 4, verdict = Suspicious, reasons = [typosquatReason ''google.com'']\<rparr>"
    by (simp add: analyzeURL_hostname hostRules_gooogle verdictOf_def)
next
  show "levenshtein ''gooogle.com'' ''google.com'' = Some 1"
    by (rule gooogle_facts(3))
next
  show "typosquatRule pds n t =
        (case find (similar n) pds of None \<Rightarrow> t | Some d \<Rightarrow> report (typosquatReason d) 4 t)"
    by (rule typosquatRule_find)
next
  assume "getHostname parse url = Some h \<and> h \<noteq> []"
  then show "typosquatReason pd \<in> set (reasons (analyzeURL parse cfg url))
           \<longleftrightarrow> find (similar (normalize h)) (popularDomains cfg) = Some pd"
    by (simp add: analyzeURL_hostname typo_hostRules typo_formatCheck)
qed

theorem typosquat_rule_witness:
  "normalize ''go0gle.com'' \<in> set POPULAR_DOMAINS
   \<and> getHostname platformURL ''http://go0gle.com'' = Some ''go0gle.com''
   \<and> typosquatReason ''google.com''
        \<notin> set (reasons (analyzeURL platformURL defaultConfig ''http://go0gle.com''))
   \<and> analyzeURL platformURL defaultConfig ''http://go0gle.com''
        = \<lparr>score = 0, verdict = Safe, reasons = []\<rparr>
   \<and> platformURL ''http://gooogle.com'' = Some ''gooogle.com''
   \<and> analyzeURL platformURL defaultConfig ''http://gooogle.com''
        = \<lparr>score = 4, verdict = Suspicious, reasons = [typosquatReason ''google.com'']\<rparr>"
proof -
  have n: "normalize ''go0gle.com'' \<in> set POPULAR_DOMAINS"
    using go0gle_facts(3,4) by simp
  have g: "getHostname platformURL ''http://go0gle.com'' = Some ''go0gle.com''"
    using getHostname_of_parse [of _ platformURL, OF go0gle_facts(1) platformURL_go0gle]
      go0gle_facts(2) by simp
  have e: "''go0gle.com'' \<noteq> []"
    by simp
  from typosquat_rule [of "''go0gle.com''" "(0, [])" platformURL "''http://go0gle.com''"
      "''google.com''" "[]" "[]" defaultConfig]
    n g e platformURL_go0gle platformURL_gooogle
  show ?thesis
    by blast
qed

section \<open>The path rules\<close>

lemma pathOf_single_occurrence:
  assumes "hostname \<noteq> []" and "indexOf url hostname = Some j"
    and "indexOf (drop (j + length hostname) url) hostname = None"
  shows "pathOf url hostname = afterFirst url hostname"
proof -
  have "splitStr url hostname = take j url # splitStr (drop (j + length hostname) url) hostname"
    using assms(1,2) by (subst splitStr.simps) simp
  also have "splitStr (drop (j + length hostname) url) hostname = [drop (j + length hostname) url]"
    using assms(1,3) by (subst splitStr.simps) simp
  finally show ?thesis
    using assms(2) by (simp add: pathOf_def afterFirst_def)
qed

text \<open>
  C7. The path rules read \<open>url.split(hostname)[1]\<close>, which is the piece of the URL
  between the first and the second occurrence of the hostname text and not all that
  follows the first one. In \<open>http://example.com/go/example.com?a=1&b=2&c=3&d=4&e=5\<close>
  five separators follow the first occurrence of the hostname, the path that the rules
  see is \<open>/go/\<close>, and the result has no reason about query parameters.
\<close>

theorem path_rules_recurring_hostname:
  "getHostname platformURL ''http://example.com/go/example.com?a=1&b=2&c=3&d=4&e=5''
     = Some ''example.com''
   \<and> afterFirst ''http://example.com/go/example.com?a=1&b=2&c=3&d=4&e=5'' ''example.com''
     = ''/go/example.com?a=1&b=2&c=3&d=4&e=5''
   \<and> countMatches (\<lambda>c. c = CHR ''?'' \<or> c = CHR ''&'')
       (afterFirst ''http://example.com/go/example.com?a=1&b=2&c=3&d=4&e=5'' ''example.com'') = 5
   \<and> pathOf ''http://example.com/go/example.com?a=1&b=2&c=3&d=4&e=5'' ''example.com'' = ''/go/''
   \<and> analyzeURL platformURL defaultConfig
         ''http://example.com/go/example.com?a=1&b=2&c=3&d=4&e=5''
       = \<lparr>score = 0, verdict = Safe, reasons = []\<rparr>
   \<and> analyzeURL platformURL defaultConfig ''http://example.com/go?a=1&b=2&c=3&d=4&e=5''
       = \<lparr>score = 1, verdict = Safe, reasons = [''Many query parameters.'']\<rparr>"
  by code_simp

section \<open>An IP address as hostname\<close>

lemma ip_facts:
  "hasScheme ''http://192.168.1.1/login''" "toLowerCase ''192.168.1.1'' = ''192.168.1.1''"
  by code_simp+

lemma hostRules_ip:
  "hostRules defaultConfig ''http://192.168.1.1/login'' ''192.168.1.1''
     (formatCheck ''http://192.168.1.1/login'' (0, []))
   = (10, [''Uses raw IP address.'', ''Multiple subdomains.'', ''Many digits in domain.'',
           keywordReason ''login''])"
  by code_simp

lemma platformURL_ip: "platformURL ''http://192.168.1.1/login'' = Some ''192.168.1.1''"
  by code_simp

lemma analyzeURL_ip:
  assumes "parse ''http://192.168.1.1/login'' = Some ''192.168.1.1''"
  shows "analyzeURL parse defaultConfig ''http://192.168.1.1/login''
         = \<lparr>score = 10, verdict = Fraudulent,
            reasons = [''Uses raw IP address.'', ''Multiple subdomains.'',
                       ''Many digits in domain.'', keywordReason ''login'']\<rparr>"
proof -
  from assms have "getHostname parse ''http://192.168.1.1/login'' = Some ''192.168.1.1''"
    using getHostname_of_parse [OF ip_facts(1)] ip_facts(2) by simp
  then show ?thesis
    by (simp add: analyzeURL_hostname hostRules_ip verdictOf_def)
qed

text \<open>
  C1, as the specification states it, fails: on \<open>http://192.168.1.1/login\<close> the verdict
  is not \<open>Suspicious\<close>.
\<close>

theorem ip_literal_login_counterexample:
  "\<not> (''Uses raw IP address.''
         \<in> set (reasons (analyzeURL platformURL defaultConfig ''http://192.168.1.1/login''))
       \<and> keywordReason ''login''
         \<in> set (reasons (analyzeURL platformURL defaultConfig ''http://192.168.1.1/login''))
       \<and> 7 \<le> score (analyzeURL platformURL defaultConfig ''http://192.168.1.1/login'')
       \<and> verdict (analyzeURL platformURL defaultConfig ''http://192.168.1.1/login'') = Suspicious)"
  by (simp add: analyzeURL_ip [of platformURL, OF platformURL_ip])

text \<open>
  C1, amended. On \<open>http://192.168.1.1/login\<close> with the configuration of the source the
  reasons are the raw IP address, the four labels of the hostname, its digits and the
  keyword \<open>login\<close>; the score is \<open>5 + 2 + 1 + 2 = 10\<close> and the verdict is
  \<open>Fraudulent\<close>.
\<close>

theorem ip_literal_login:
  assumes "parse ''http://192.168.1.1/login'' = Some ''192.168.1.1''"
  shows "''Uses raw IP address.''
           \<in> set (reasons (analyzeURL parse defaultConfig ''http://192.168.1.1/login''))
         \<and> keywordReason ''login''
           \<in> set (reasons (analyzeURL parse defaultConfig ''http://192.168.1.1/login''))
         \<and> 7 \<le> score (analyzeURL parse defaultConfig ''http://192.168.1.1/login'')
         \<and> analyzeURL parse defaultConfig ''http://192.168.1.1/login''
           = \<lparr>score = 10, verdict = Fraudulent,
              reasons = [''Uses raw IP address.'', ''Multiple subdomains.'',
                         ''Many digits in domain.'', keywordReason ''login'']\<rparr>"
  by (simp add: analyzeURL_ip [of parse, OF assms])

theorem ip_literal_login_witness:
  "platformURL ''http://192.168.1.1/login'' = Some ''192.168.1.1''
   \<and> score (analyzeURL platformURL defaultConfig ''http://192.168.1.1/login'') = 10
   \<and> verdict (analyzeURL platformURL defaultConfig ''http://192.168.1.1/login'') = Fraudulent"
  using ip_literal_login [of platformURL, OF platformURL_ip] platformURL_ip by simp

section \<open>The edit distance computed by the table\<close>

lemma editDistance_Nil2 [simp]: "editDistance xs [] = length xs"
  by (cases xs) simp_all

lemma editDistance_same [simp]: "editDistance xs xs = 0"
  by (induction xs) simp_all

subsection \<open>A chain of that many edits exists\<close>

lemma edit1_Cons: "edit1 xs ys \<Longrightarrow> edit1 (c # xs) (c # ys)"
proof (induction rule: edit1.induct)
  case (insertion xs ys d)
  show ?case using edit1.insertion [of "c # xs" ys d] by simp
next
  case (deletion xs d ys)
  show ?case using edit1.deletion [of "c # xs" d ys] by simp
next
  case (substitution d e xs ys)
  then show ?case using edit1.substitution [of d e "c # xs" ys] by simp
qed

lemma chain_Cons: "(edit1 ^^ n) xs ys \<Longrightarrow> (edit1 ^^ n) (c # xs) (c # ys)"
proof (induction n arbitrary: ys)
  case 0
  then show ?case by simp
next
  case (Suc n)
  then obtain zs where "(edit1 ^^ n) xs zs" and "edit1 zs ys"
    by auto
  then show ?case
    using Suc.IH [of zs] edit1_Cons [of zs ys c] by auto
qed

lemma edit1_Cons_insert: "edit1 ys (y # ys)"
  using edit1.insertion [of "[]" ys y] by simp

lemma edit1_Cons_delete: "edit1 (x # xs) xs"
  using edit1.deletion [of "[]" x xs] by simp

lemma edit1_Cons_subst: "x \<noteq> y \<Longrightarrow> edit1 (x # xs) (y # xs)"
  using edit1.substitution [of x y "[]" xs] by simp

lemma chain_step_last: "(edit1 ^^ n) xs ys \<Longrightarrow> edit1 ys zs \<Longrightarrow> (edit1 ^^ Suc n) xs zs"
  by auto

lemma chain_step_first: "edit1 xs ys \<Longrightarrow> (edit1 ^^ n) ys zs \<Longrightarrow> (edit1 ^^ Suc n) xs zs"
  by (meson relpowp_Suc_I2)

lemma chain_of_editDistance: "(edit1 ^^ editDistance xs ys) xs ys"
proof (induction xs ys rule: editDistance.induct)
  case (1 ys)
  show ?case
  proof (induction ys)
    case Nil
    show ?case by simp
  next
    case (Cons y ys)
    from chain_step_last [OF Cons edit1_Cons_insert] show ?case by simp
  qed
next
  case (2 x xs)
  have "(edit1 ^^ length zs) zs []" for zs :: string
  proof (induction zs)
    case Nil
    show ?case by simp
  next
    case (Cons z zs)
    from chain_step_first [OF edit1_Cons_delete Cons] show ?case by simp
  qed
  from this [of "x # xs"] show ?case by simp
next
  case (3 x xs y ys)
  let ?del = "editDistance xs (y # ys) + 1" and ?ins = "editDistance (x # xs) ys + 1"
    and ?sub = "editDistance xs ys + (if x = y then 0 else 1)"
  have del: "(edit1 ^^ ?del) (x # xs) (y # ys)"
    using chain_step_first [OF edit1_Cons_delete "3.IH"(1)] by simp
  have ins: "(edit1 ^^ ?ins) (x # xs) (y # ys)"
    using chain_step_last [OF "3.IH"(2) edit1_Cons_insert] by simp
  have sub: "(edit1 ^^ ?sub) (x # xs) (y # ys)"
  proof (cases "x = y")
    case True
    with chain_Cons [OF "3.IH"(3), of x] show ?thesis by simp
  next
    case False
    from chain_step_last [OF chain_Cons [OF "3.IH"(3), of x] edit1_Cons_subst [OF False]]
    show ?thesis using False by simp
  qed
  have "editDistance (x # xs) (y # ys) = ?del \<or> editDistance (x # xs) (y # ys) = ?ins
        \<or> editDistance (x # xs) (y # ys) = ?sub"
    by (simp add: min_def)
  with del ins sub show ?case
    by metis
qed

subsection \<open>No shorter chain exists\<close>

lemma editDistance_Cons_upper:
  "editDistance (x # xs) (y # ys) \<le> Suc (editDistance xs (y # ys))"
  "editDistance (x # xs) (y # ys) \<le> Suc (editDistance (x # xs) ys)"
  "editDistance (x # xs) (y # ys) \<le> editDistance xs ys + (if x = y then 0 else 1)"
  by simp_all

lemma editDistance_Cons_lower:
  assumes "k \<le> Suc (Suc (editDistance xs (y # ys)))"
    and "k \<le> Suc (Suc (editDistance (x # xs) ys))"
    and "k \<le> Suc (editDistance xs ys + (if x = y then 0 else 1))"
  shows "k \<le> Suc (editDistance (x # xs) (y # ys))"
  using assms by (simp add: min_def)

lemma editDistance_insert2: "editDistance xs (y # ys) \<le> Suc (editDistance xs ys)"
  by (cases xs) simp_all

lemma editDistance_delete1: "editDistance (x # xs) ys \<le> Suc (editDistance xs ys)"
  by (cases ys) simp_all

lemma editDistance_undelete1: "editDistance xs zs \<le> Suc (editDistance (c # xs) zs)"
proof (induction zs)
  case Nil
  show ?case by simp
next
  case (Cons z zs)
  have i: "editDistance xs (z # zs) \<le> Suc (editDistance xs zs)"
    by (rule editDistance_insert2)
  show ?case
  proof (rule editDistance_Cons_lower)
    show "editDistance xs (z # zs) \<le> Suc (Suc (editDistance xs (z # zs)))"
      by simp
    show "editDistance xs (z # zs) \<le> Suc (Suc (editDistance (c # xs) zs))"
      using i Cons by linarith
    show "editDistance xs (z # zs) \<le> Suc (editDistance xs zs + (if c = z then 0 else 1))"
      using i by simp
  qed
qed

lemma editDistance_subst1: "editDistance (c # xs) zs \<le> Suc (editDistance (d # xs) zs)"
proof (induction zs)
  case Nil
  show ?case by simp
next
  case (Cons z zs)
  note u = editDistance_Cons_upper [of c xs z zs]
  show ?case
  proof (rule editDistance_Cons_lower)
    show "editDistance (c # xs) (z # zs) \<le> Suc (Suc (editDistance xs (z # zs)))"
      using u(1) by linarith
    show "editDistance (c # xs) (z # zs) \<le> Suc (Suc (editDistance (d # xs) zs))"
      using u(2) Cons by linarith
    show "editDistance (c # xs) (z # zs) \<le> Suc (editDistance xs zs + (if d = z then 0 else 1))"
      using u(3) by (simp split: if_splits)
  qed
qed

lemma editDistance_prefix:
  assumes "\<And>zs. editDistance u zs \<le> Suc (editDistance v zs)"
  shows "editDistance (a # u) zs \<le> Suc (editDistance (a # v) zs)"
proof (induction zs)
  case Nil
  from assms [of "[]"] show ?case by simp
next
  case (Cons z zs)
  note up = editDistance_Cons_upper [of a u z zs]
  show ?case
  proof (rule editDistance_Cons_lower)
    show "editDistance (a # u) (z # zs) \<le> Suc (Suc (editDistance v (z # zs)))"
      using up(1) assms [of "z # zs"] by linarith
    show "editDistance (a # u) (z # zs) \<le> Suc (Suc (editDistance (a # v) zs))"
      using up(2) Cons by linarith
    show "editDistance (a # u) (z # zs) \<le> Suc (editDistance v zs + (if a = z then 0 else 1))"
      using up(3) assms [of zs] by (simp split: if_splits)
  qed
qed

lemma editDistance_prefixes:
  assumes "\<And>zs. editDistance u zs \<le> Suc (editDistance v zs)"
  shows "editDistance (p @ u) zs \<le> Suc (editDistance (p @ v) zs)"
proof (induction p arbitrary: zs)
  case Nil
  show ?case using assms by simp
next
  case (Cons a p)
  show ?case using editDistance_prefix [of "p @ u" "p @ v" a zs] Cons by simp
qed

lemma editDistance_edit1: "edit1 xs ys \<Longrightarrow> editDistance xs zs \<le> Suc (editDistance ys zs)"
proof (induction rule: edit1.induct)
  case (insertion xs ys c)
  show ?case by (rule editDistance_prefixes) (rule editDistance_undelete1)
next
  case (deletion xs c ys)
  show ?case by (rule editDistance_prefixes) (rule editDistance_delete1)
next
  case (substitution c d xs ys)
  show ?case by (rule editDistance_prefixes) (rule editDistance_subst1)
qed

lemma editDistance_least: "(edit1 ^^ n) xs ys \<Longrightarrow> editDistance xs ys \<le> n"
proof (induction n arbitrary: xs)
  case 0
  then show ?case by simp
next
  case (Suc n)
  then obtain zs where "edit1 xs zs" and "(edit1 ^^ n) zs ys"
    by (meson relpowp_Suc_D2)
  with Suc.IH [of zs] editDistance_edit1 [of xs zs ys] show ?case
    by simp
qed

subsection \<open>Reversal\<close>

lemma edit1_rev: "edit1 xs ys \<Longrightarrow> edit1 (rev xs) (rev ys)"
proof (induction rule: edit1.induct)
  case (insertion xs ys c)
  show ?case using edit1.insertion [of "rev ys" "rev xs" c] by simp
next
  case (deletion xs c ys)
  show ?case using edit1.deletion [of "rev ys" c "rev xs"] by simp
next
  case (substitution c d xs ys)
  then show ?case using edit1.substitution [of c d "rev ys" "rev xs"] by simp
qed

lemma chain_rev: "(edit1 ^^ n) xs ys \<Longrightarrow> (edit1 ^^ n) (rev xs) (rev ys)"
proof (induction n arbitrary: ys)
  case 0
  then show ?case by simp
next
  case (Suc n)
  then obtain zs where "(edit1 ^^ n) xs zs" and "edit1 zs ys"
    by auto
  then show ?case
    using Suc.IH [of zs] edit1_rev [of zs ys] by auto
qed

lemma chain_rev_iff: "(edit1 ^^ n) (rev xs) (rev ys) \<longleftrightarrow> (edit1 ^^ n) xs ys"
  using chain_rev [of n xs ys] chain_rev [of n "rev xs" "rev ys"] by auto

subsection \<open>The table\<close>

lemma prefixDist_0 [simp]: "prefixDist a b 0 j = min j (length b)"
  by (simp add: prefixDist_def)

lemma prefixDist_0' [simp]: "prefixDist a b i 0 = min i (length a)"
  by (simp add: prefixDist_def)

lemma prefixDist_Suc:
  assumes "i < length a" and "j < length b"
  shows "prefixDist a b (Suc i) (Suc j) =
           min (prefixDist a b i (Suc j) + 1)
             (min (prefixDist a b (Suc i) j + 1)
                (prefixDist a b i j + (if a ! i = b ! j then 0 else 1)))"
  using assms by (simp add: prefixDist_def take_Suc_conv_app_nth)

lemma initColumn_step:
  "i \<le> m \<Longrightarrow> initColumn i m dp = initColumn (i + 1) m (setCell dp i 0 (Some i))"
  by (subst initColumn.simps) simp

lemma initColumn_stop: "\<not> i \<le> m \<Longrightarrow> initColumn i m dp = dp"
  by (subst initColumn.simps) simp

lemma initRow_step:
  "j \<le> n \<Longrightarrow> initRow j n dp = initRow (j + 1) n (setCell dp 0 j (Some j))"
  by (subst initRow.simps) simp

lemma initRow_stop: "\<not> j \<le> n \<Longrightarrow> initRow j n dp = dp"
  by (subst initRow.simps) simp

lemma fillRow_step:
  "j \<le> length b \<Longrightarrow> fillRow a b i j dp = fillRow a b i (j + 1) (fillCell a b i j dp)"
  by (subst fillRow.simps) simp

lemma fillRow_stop: "\<not> j \<le> length b \<Longrightarrow> fillRow a b i j dp = dp"
  by (subst fillRow.simps) simp

lemma fillTable_step:
  "i \<le> length a \<Longrightarrow> fillTable a b i dp = fillTable a b (i + 1) (fillRow a b i 1 dp)"
  by (subst fillTable.simps) simp

lemma fillTable_stop: "\<not> i \<le> length a \<Longrightarrow> fillTable a b i dp = dp"
  by (subst fillTable.simps) simp

declare initColumn.simps [simp del] initRow.simps [simp del]
  fillRow.simps [simp del] fillTable.simps [simp del]

lemma shaped_newTable: "shaped m n (newTable m n)"
proof -
  have "replicate (m + 1) (replicate (n + 1) (None :: cell)) ! r = replicate (n + 1) None"
    if "r \<le> m" for r
    using that by (intro nth_replicate) simp
  then show ?thesis
    unfolding shaped_def newTable_def by (simp del: replicate_Suc)
qed

lemma shaped_setCell:
  assumes "shaped m n dp"
  shows "shaped m n (setCell dp i j v)"
proof -
  have "length (dp[i := (dp ! i)[j := v]] ! r) = n + 1" if "r \<le> m" for r
  proof (cases "r = i")
    case True
    with that assms show ?thesis
      by (simp add: shaped_def)
  next
    case False
    with that assms show ?thesis
      by (simp add: shaped_def)
  qed
  with assms show ?thesis
    by (simp add: shaped_def setCell_def)
qed

lemma getCell_setCell:
  assumes "shaped m n dp" and "i \<le> m" and "j \<le> n"
  shows "getCell (setCell dp i j v) r c = (if r = i \<and> c = j then v else getCell dp r c)"
proof -
  from assms have i: "i < length dp" and j: "j < length (dp ! i)"
    by (simp_all add: shaped_def)
  show ?thesis
  proof (cases "r = i")
    case True
    with i j show ?thesis
      by (simp add: setCell_def getCell_def nth_list_update)
  next
    case False
    with i show ?thesis
      by (simp add: setCell_def getCell_def)
  qed
qed

lemma initColumn_spec:
  assumes "shaped m n dp"
  shows "shaped m n (initColumn i m dp)
         \<and> (\<forall>r c. getCell (initColumn i m dp) r c
               = (if i \<le> r \<and> r \<le> m \<and> c = 0 then Some r else getCell dp r c))"
  using assms
proof (induction i m dp rule: initColumn.induct)
  case (1 i m dp)
  show ?case
  proof (cases "i \<le> m")
    case True
    have s: "shaped m n (setCell dp i 0 (Some i))"
      using "1.prems" by (rule shaped_setCell)
    have g: "getCell (setCell dp i 0 (Some i)) r c
               = (if r = i \<and> c = 0 then Some i else getCell dp r c)" for r c
      using "1.prems" True by (intro getCell_setCell) auto
    from "1.IH" [OF True s] True show ?thesis
      unfolding initColumn_step [OF True] g by auto
  next
    case False
    with "1.prems" show ?thesis
      by (auto simp: initColumn_stop)
  qed
qed

lemma initRow_spec:
  assumes "shaped m n dp"
  shows "shaped m n (initRow j n dp)
         \<and> (\<forall>r c. getCell (initRow j n dp) r c
               = (if j \<le> c \<and> c \<le> n \<and> r = 0 then Some c else getCell dp r c))"
  using assms
proof (induction j n dp rule: initRow.induct)
  case (1 j n dp)
  show ?case
  proof (cases "j \<le> n")
    case True
    have s: "shaped m n (setCell dp 0 j (Some j))"
      using "1.prems" by (rule shaped_setCell)
    have g: "getCell (setCell dp 0 j (Some j)) r c
               = (if r = 0 \<and> c = j then Some j else getCell dp r c)" for r c
      using "1.prems" True by (intro getCell_setCell) auto
    from "1.IH" [OF True s] True show ?thesis
      unfolding initRow_step [OF True] g by auto
  next
    case False
    with "1.prems" show ?thesis
      by (auto simp: initRow_stop)
  qed
qed

lemma filled_init:
  "filled a b 1 1 (initRow 0 (length b) (initColumn 0 (length a) (newTable (length a) (length b))))"
proof -
  let ?m = "length a" and ?n = "length b"
  note c = initColumn_spec [OF shaped_newTable, of ?m ?n 0]
  note r = initRow_spec [OF conjunct1 [OF c], of 0]
  have "getCell (initRow 0 ?n (initColumn 0 ?m (newTable ?m ?n))) i j = Some (prefixDist a b i j)"
    if "i \<le> ?m" "j \<le> ?n" "i = 0 \<or> j = 0" for i j
    using that conjunct2 [OF r] conjunct2 [OF c] by auto
  with conjunct1 [OF r] show ?thesis
    unfolding filled_def by auto
qed

lemma filled_fillCell:
  assumes "filled a b i j dp" and "1 \<le> i" and "i \<le> length a" and "1 \<le> j" and "j \<le> length b"
  shows "filled a b i (j + 1) (fillCell a b i j dp)"
proof -
  from assms obtain i' j' where i: "i = Suc i'" and j: "j = Suc j'"
    by (cases i; cases j) auto
  have sh: "shaped (length a) (length b) dp"
    using assms(1) by (simp add: filled_def)
  have known: "getCell dp r c = Some (prefixDist a b r c)"
    if "r \<le> length a" "c \<le> length b" "r = 0 \<or> c = 0 \<or> r < i \<or> (r = i \<and> c < j)" for r c
    using assms(1) that by (simp add: filled_def)
  have up: "getCell dp i' j = Some (prefixDist a b i' j)"
    using assms i by (intro known) auto
  have left: "getCell dp i j' = Some (prefixDist a b i j')"
    using assms j by (intro known) auto
  have diag: "getCell dp i' j' = Some (prefixDist a b i' j')"
    using assms i j by (intro known) auto
  have new: "min3 (plusCell (getCell dp (i - 1) j) 1) (plusCell (getCell dp i (j - 1)) 1)
               (plusCell (getCell dp (i - 1) (j - 1)) (if a ! (i - 1) = b ! (j - 1) then 0 else 1))
             = Some (prefixDist a b i j)"
    using up left diag assms(3,5) i j
    by (simp add: min3_def plusCell_def prefixDist_Suc)
  have get: "getCell (fillCell a b i j dp) r c
               = (if r = i \<and> c = j then Some (prefixDist a b i j) else getCell dp r c)" for r c
    using getCell_setCell [OF sh assms(3,5)] new by (simp add: fillCell_def Let_def)
  have "shaped (length a) (length b) (fillCell a b i j dp)"
    using sh by (simp add: fillCell_def Let_def shaped_setCell)
  then show ?thesis
    unfolding filled_def using get known by auto
qed

lemma filled_fillRow:
  assumes "filled a b i j dp" and "1 \<le> i" and "i \<le> length a" and "1 \<le> j"
  shows "filled a b (i + 1) 1 (fillRow a b i j dp)"
  using assms
proof (induction a b i j dp rule: fillRow.induct)
  case (1 a b i j dp)
  show ?case
  proof (cases "j \<le> length b")
    case True
    have "filled a b i (j + 1) (fillCell a b i j dp)"
      using "1.prems" True by (intro filled_fillCell) auto
    from "1.IH" [OF True this] "1.prems" show ?thesis
      by (simp add: fillRow_step [OF True])
  next
    case False
    have "getCell dp r c = Some (prefixDist a b r c)"
      if "r \<le> length a" "c \<le> length b" "r = 0 \<or> c = 0 \<or> r < i + 1 \<or> (r = i + 1 \<and> c < 1)"
      for r c
    proof -
      from that False have "r = 0 \<or> c = 0 \<or> r < i \<or> (r = i \<and> c < j)"
        by auto
      with "1.prems"(1) that(1,2) show ?thesis
        by (simp add: filled_def)
    qed
    with "1.prems"(1) have "filled a b (i + 1) 1 dp"
      by (simp add: filled_def)
    with False show ?thesis
      by (simp add: fillRow_stop)
  qed
qed

lemma filled_fillTable:
  assumes "filled a b i 1 dp" and "1 \<le> i"
  shows "\<exists>k > length a. filled a b k 1 (fillTable a b i dp)"
  using assms
proof (induction a b i dp rule: fillTable.induct)
  case (1 a b i dp)
  show ?case
  proof (cases "i \<le> length a")
    case True
    have "filled a b (i + 1) 1 (fillRow a b i 1 dp)"
      using "1.prems" True by (intro filled_fillRow) auto
    from "1.IH" [OF True this] show ?thesis
      by (simp add: fillTable_step [OF True])
  next
    case False
    with "1.prems" show ?thesis
      by (auto simp: fillTable_stop intro!: exI [of _ i])
  qed
qed

lemma levenshtein_dist: "levenshtein a b = Some (editDistance (rev a) (rev b))"
proof (cases "a = [] \<or> b = []")
  case True
  then show ?thesis
    by (auto simp: levenshtein_def)
next
  case False
  from filled_fillTable [OF filled_init, of a b]
  obtain k where k: "k > length a"
    and f: "filled a b k 1 (fillTable a b 1
              (initRow 0 (length b) (initColumn 0 (length a) (newTable (length a) (length b)))))"
    by auto
  from f k have "getCell (fillTable a b 1
              (initRow 0 (length b) (initColumn 0 (length a) (newTable (length a) (length b)))))
            (length a) (length b) = Some (prefixDist a b (length a) (length b))"
    unfolding filled_def by auto
  with False show ?thesis
    by (simp add: levenshtein_def Let_def prefixDist_def)
qed

lemma levenshtein_kitten: "levenshtein ''kitten'' ''sitting'' = Some 3"
  by code_simp

text \<open>
  C5. \<open>levenshtein(a, b)\<close> returns a number, some chain of that many single-character
  insertions, deletions and substitutions transforms \<open>a\<close> into \<open>b\<close>, and no chain
  does so with fewer; \<open>levenshtein("", s)\<close> is the length of \<open>s\<close>,
  \<open>levenshtein(s, s)\<close> is 0 and \<open>levenshtein("kitten", "sitting")\<close> is 3.
\<close>

theorem levenshtein_minimum_edits:
  "(\<exists>d. levenshtein a b = Some d \<and> (edit1 ^^ d) a b \<and> (\<forall>n. (edit1 ^^ n) a b \<longrightarrow> d \<le> n))
   \<and> levenshtein [] s = Some (length s)
   \<and> levenshtein s s = Some 0
   \<and> levenshtein ''kitten'' ''sitting'' = Some 3"
proof (intro conjI)
  let ?d = "editDistance (rev a) (rev b)"
  have "(edit1 ^^ ?d) a b"
    using chain_of_editDistance [of "rev a" "rev b"] by (simp add: chain_rev_iff)
  moreover have "?d \<le> n" if "(edit1 ^^ n) a b" for n
    using that editDistance_least [of n "rev a" "rev b"] by (simp add: chain_rev_iff)
  ultimately show "\<exists>d. levenshtein a b = Some d \<and> (edit1 ^^ d) a b
      \<and> (\<forall>n. (edit1 ^^ n) a b \<longrightarrow> d \<le> n)"
    using levenshtein_dist [of a b] by blast
next
  show "levenshtein [] s = Some (length s)"
    by (simp add: levenshtein_def)
next
  show "levenshtein s s = Some 0"
    by (simp add: levenshtein_dist)
next
  show "levenshtein ''kitten'' ''sitting'' = Some 3"
    by (rule levenshtein_kitten)
qed

theorem levenshtein_minimum_edits_witness:
  "(edit1 ^^ 1) ''cat'' ''cut'' \<and> (\<exists>d. levenshtein ''cat'' ''cut'' = Some d \<and> d \<le> 1)"
proof -
  have "edit1 (''c'' @ CHR ''a'' # ''t'') (''c'' @ CHR ''u'' # ''t'')"
    by (rule edit1.substitution) simp
  then have c: "(edit1 ^^ 1) ''cat'' ''cut''"
    by auto
  with levenshtein_minimum_edits [of "''cat''" "''cut''" "[]"] show ?thesis
    by blast
qed

section \<open>No exception reaches the caller\<close>

declare runInitColumn.simps [simp del] runInitRow.simps [simp del]
  runFillRow.simps [simp del] runFillTable.simps [simp del]

lemma thenJs_Inr [simp]: "thenJs (Inr x) f = f x"
  by (simp add: thenJs_def)

lemma receiver_Some [simp]: "receiver (Some v) = Inr v"
  by (simp add: receiver_def)

lemma orEmpty_Some: "\<exists>v. orEmpty x = Some v"
  by (cases x) (simp_all add: orEmpty_def)

lemma writeCell_shaped:
  assumes "shaped m n dp" and "i \<le> m" and "j \<le> n"
  shows "writeCell dp i j v = Inr (setCell dp i j v)"
  using assms by (simp add: shaped_def writeCell_def setCell_def putAt_def)

lemma readCell_shaped:
  assumes "shaped m n dp" and "i \<le> m"
  shows "readCell dp (int i) (int j) = Inr (getCell dp i j)"
  using assms by (simp add: shaped_def readCell_def getCell_def)

lemma runInitColumn_eq:
  "shaped m n dp \<Longrightarrow> runInitColumn i m dp = Inr (initColumn i m dp)"
proof (induction i m dp rule: initColumn.induct)
  case (1 i m dp)
  show ?case
  proof (cases "i \<le> m")
    case True
    have w: "writeCell dp i 0 (Some i) = Inr (setCell dp i 0 (Some i))"
      using "1.prems" True by (intro writeCell_shaped) auto
    have "shaped m n (setCell dp i 0 (Some i))"
      using "1.prems" by (rule shaped_setCell)
    from "1.IH" [OF True this] True w show ?thesis
      by (subst runInitColumn.simps) (simp add: initColumn_step)
  next
    case False
    then show ?thesis
      by (subst runInitColumn.simps) (simp add: initColumn_stop)
  qed
qed

lemma runInitRow_eq:
  "shaped m n dp \<Longrightarrow> runInitRow j n dp = Inr (initRow j n dp)"
proof (induction j n dp rule: initRow.induct)
  case (1 j n dp)
  show ?case
  proof (cases "j \<le> n")
    case True
    have w: "writeCell dp 0 j (Some j) = Inr (setCell dp 0 j (Some j))"
      using "1.prems" True by (intro writeCell_shaped) auto
    have "shaped m n (setCell dp 0 j (Some j))"
      using "1.prems" by (rule shaped_setCell)
    from "1.IH" [OF True this] True w show ?thesis
      by (subst runInitRow.simps) (simp add: initRow_step)
  next
    case False
    then show ?thesis
      by (subst runInitRow.simps) (simp add: initRow_stop)
  qed
qed

lemma shaped_fillCell: "shaped m n dp \<Longrightarrow> shaped m n (fillCell a b i j dp)"
  by (simp add: fillCell_def Let_def shaped_setCell)

lemma runFillCell_eq:
  assumes "shaped (length a) (length b) dp"
    and "1 \<le> i" and "i \<le> length a" and "1 \<le> j" and "j \<le> length b"
  shows "runFillCell a b i j dp = Inr (fillCell a b i j dp)"
proof -
  have i: "int i - 1 = int (i - 1)" and j: "int j - 1 = int (j - 1)"
    using assms(2,4) by simp_all
  have "i - 1 < length a" and "j - 1 < length b"
    using assms(2-5) by arith+
  then have "charAt a (int (i - 1)) = Some (a ! (i - 1))"
    and "charAt b (int (j - 1)) = Some (b ! (j - 1))"
    by (simp_all add: charAt_def)
  then have c: "(charAt a (int i - 1) = charAt b (int j - 1)) = (a ! (i - 1) = b ! (j - 1))"
    unfolding i j by simp
  have r: "readCell dp (int r) (int k) = Inr (getCell dp r k)" if "r \<le> length a" for r k
    using assms(1) that by (rule readCell_shaped)
  have "readCell dp (int i - 1) (int j) = Inr (getCell dp (i - 1) j)"
       "readCell dp (int i) (int j - 1) = Inr (getCell dp i (j - 1))"
       "readCell dp (int i - 1) (int j - 1) = Inr (getCell dp (i - 1) (j - 1))"
    unfolding i j using assms(3) by (simp_all add: r)
  then show ?thesis
    using writeCell_shaped [OF assms(1,3,5)] c
    by (simp add: runFillCell_def fillCell_def Let_def)
qed

lemma runFillRow_eq:
  assumes "shaped (length a) (length b) dp" and "1 \<le> i" and "i \<le> length a" and "1 \<le> j"
  shows "runFillRow a b i j dp = Inr (fillRow a b i j dp)
         \<and> shaped (length a) (length b) (fillRow a b i j dp)"
  using assms
proof (induction a b i j dp rule: fillRow.induct)
  case (1 a b i j dp)
  show ?case
  proof (cases "j \<le> length b")
    case True
    have c: "runFillCell a b i j dp = Inr (fillCell a b i j dp)"
      using "1.prems" True by (intro runFillCell_eq) auto
    have "shaped (length a) (length b) (fillCell a b i j dp)"
      using "1.prems"(1) by (rule shaped_fillCell)
    from "1.IH" [OF True this] "1.prems" True c show ?thesis
      by (subst runFillRow.simps) (simp add: fillRow_step)
  next
    case False
    with "1.prems" show ?thesis
      by (subst runFillRow.simps) (simp add: fillRow_stop)
  qed
qed

lemma runFillTable_eq:
  assumes "shaped (length a) (length b) dp" and "1 \<le> i"
  shows "runFillTable a b i dp = Inr (fillTable a b i dp)
         \<and> shaped (length a) (length b) (fillTable a b i dp)"
  using assms
proof (induction a b i dp rule: fillTable.induct)
  case (1 a b i dp)
  show ?case
  proof (cases "i \<le> length a")
    case True
    have r: "runFillRow a b i 1 dp = Inr (fillRow a b i 1 dp)
             \<and> shaped (length a) (length b) (fillRow a b i 1 dp)"
      using "1.prems" True by (intro runFillRow_eq) auto
    from "1.IH" [OF True conjunct2 [OF r]] r True show ?thesis
      by (subst runFillTable.simps) (simp add: fillTable_step)
  next
    case False
    with "1.prems" show ?thesis
      by (subst runFillTable.simps) (simp add: fillTable_stop)
  qed
qed

lemma runLevenshtein_eq: "runLevenshtein a b = Inr (levenshtein a b)"
proof (cases "a = [] \<or> b = []")
  case True
  then show ?thesis
    by (auto simp: runLevenshtein_def levenshtein_def)
next
  case False
  let ?m = "length a" and ?n = "length b"
  let ?c = "initColumn 0 ?m (newTable ?m ?n)"
  let ?r = "initRow 0 ?n ?c"
  have c: "runInitColumn 0 ?m (newTable ?m ?n) = Inr ?c"
    by (rule runInitColumn_eq [OF shaped_newTable])
  have sc: "shaped ?m ?n ?c"
    by (rule conjunct1 [OF initColumn_spec [OF shaped_newTable]])
  have r: "runInitRow 0 ?n ?c = Inr ?r"
    by (rule runInitRow_eq [OF sc])
  have sr: "shaped ?m ?n ?r"
    by (rule conjunct1 [OF initRow_spec [OF sc]])
  from runFillTable_eq [OF sr, of 1]
  have f: "runFillTable a b 1 ?r = Inr (fillTable a b 1 ?r)"
    and sf: "shaped ?m ?n (fillTable a b 1 ?r)"
    by auto
  have "readCell (fillTable a b 1 ?r) (int ?m) (int ?n) = Inr (getCell (fillTable a b 1 ?r) ?m ?n)"
    using sf by (intro readCell_shaped) auto
  with False c r f show ?thesis
    by (simp add: runLevenshtein_def levenshtein_def Let_def)
qed

lemma runGetHostname_eq: "runGetHostname parse url = getHostname parse url"
  by (simp add: runGetHostname_def getHostname_def tryCatch_def construct_def thenJs_def Let_def
      split: option.splits)

lemma runMatchCount_eq: "runMatchCount P (Some s) = Inr (countMatches P s)"
  by (simp add: runMatchCount_def countMatches_def orEmpty_def)

lemma runTldRule_eq: "runTldRule tlds (Some h) t = Inr (tldRule tlds h t)"
  by (induction tlds) simp_all

lemma runTyposquatRule_eq: "runTyposquatRule pds n t = Inr (typosquatRule pds n t)"
  by (induction pds) (auto simp: runLevenshtein_eq similar_def split: option.splits)

lemma runPathRules_eq: "runPathRules (Some p) t = Inr (pathRules p t)"
  by (simp add: runPathRules_def pathRules_def runMatchCount_eq Let_def)

lemma path_eq:
  "orEmpty (case splitStr url h of _ # p # _ \<Rightarrow> Some p | _ \<Rightarrow> None) = Some (pathOf url h)"
  by (simp add: orEmpty_def pathOf_def del: splitStr.simps split: list.splits)

lemma runHostRules_eq: "runHostRules cfg url (Some h) t = Inr (hostRules cfg url h t)"
  by (simp add: runHostRules_def hostRules_def Let_def toStringJs_def runTldRule_eq
      runMatchCount_eq runTyposquatRule_eq path_eq runPathRules_eq del: splitStr.simps)

lemma runAnalyzeURL_eq: "runAnalyzeURL parse cfg url = Inr (analyzeURL parse cfg url)"
proof (cases rule: noHostname_cases [of parse url])
  case 1
  then show ?thesis
    by (simp add: runAnalyzeURL_def runGetHostname_eq analyzeURL_noHostname Let_def)
next
  case (2 h)
  then show ?thesis
    by (simp add: runAnalyzeURL_def runGetHostname_eq analyzeURL_hostname Let_def
        noHostname_def runHostRules_eq)
qed

lemma runHostRules_null: "runHostRules cfg url None t = Inl TypeError"
  by (simp add: runHostRules_def receiver_def thenJs_def Let_def)

lemma readCell_no_row: "readCell [] 0 0 = Inl TypeError"
  by (simp add: readCell_def)

lemma getHostname_empty: "parse ''http://'' = None \<Longrightarrow> getHostname parse [] = None"
  by (simp add: getHostname_def hasScheme_def)

lemma formatCheck_empty: "formatCheck [] (0, []) = (1, [''Malformed or missing protocol.''])"
  by code_simp

lemma platformURL_empty: "platformURL ''http://'' = None"
  by code_simp

text \<open>
  C9. For every input and every behaviour of the URL constructor the run of
  \<open>analyzeURL\<close> ends without an exception and returns an \<open>AnalysisResult\<close>, the one
  that \<open>analyzeURL\<close> is defined to return; so does every run of \<open>levenshtein\<close>,
  with a number. The constructor throws on \<open>http://\<close>, so the empty string has no
  hostname and is \<open>Fraudulent\<close>.
\<close>

theorem analyzeURL_never_raises:
  "(\<exists>r. runAnalyzeURL parse cfg url = Inr r)
   \<and> runAnalyzeURL parse cfg url = Inr (analyzeURL parse cfg url)
   \<and> (\<exists>d. runLevenshtein a b = Inr (Some d))
   \<and> (parse ''http://'' = None \<longrightarrow>
        runGetHostname parse [] = None
        \<and> runAnalyzeURL parse cfg [] =
            Inr \<lparr>score = 4, verdict = Fraudulent,
                 reasons = [''Malformed or missing protocol.'', ''Cannot parse hostname.'']\<rparr>)"
proof (intro conjI impI)
  show "\<exists>r. runAnalyzeURL parse cfg url = Inr r"
    by (simp add: runAnalyzeURL_eq)
next
  show "runAnalyzeURL parse cfg url = Inr (analyzeURL parse cfg url)"
    by (rule runAnalyzeURL_eq)
next
  show "\<exists>d. runLevenshtein a b = Inr (Some d)"
    by (simp add: runLevenshtein_eq levenshtein_dist)
next
  assume p: "parse ''http://'' = None"
  then show "runGetHostname parse [] = None"
    by (simp add: runGetHostname_eq getHostname_empty)
  from p have "noHostname (getHostname parse [])"
    by (simp add: getHostname_empty noHostname_def)
  then show "runAnalyzeURL parse cfg [] =
            Inr \<lparr>score = 4, verdict = Fraudulent,
                 reasons = [''Malformed or missing protocol.'', ''Cannot parse hostname.'']\<rparr>"
    by (simp add: runAnalyzeURL_eq analyzeURL_noHostname cannotParse_eq formatCheck_empty)
qed

theorem analyzeURL_never_raises_witness:
  "platformURL ''http://'' = None
   \<and> runGetHostname platformURL [] = None
   \<and> runAnalyzeURL platformURL defaultConfig [] =
       Inr \<lparr>score = 4, verdict = Fraudulent,
            reasons = [''Malformed or missing protocol.'', ''Cannot parse hostname.'']\<rparr>"
  using analyzeURL_never_raises [of platformURL defaultConfig "[]" "[]" "[]"] platformURL_empty
  by blast

end
